theory Spec2Isabelle
  imports Complex_Main
begin

text \<open>
  VeloLift: a workout logger (React, IndexedDB through Dexie) with a velocity tracker.
  This theory embeds the store operations of \<^verbatim>\<open>db.js\<close> and the handlers of the
  \<^verbatim>\<open>VelocityView\<close> component as functions on explicit state, and the rep tracker and
  fatigue detector of the tracking engine as the specification describes them.
\<close>

section \<open>JavaScript strings\<close>

text \<open>
  A JavaScript string is a sequence of UTF-16 code units, here a list of naturals.
  \<^verbatim>\<open>String.prototype.trim\<close> strips at both ends the code units of WhiteSpace and
  LineTerminator: TAB, LF, VT, FF, CR, SP, NBSP, U+1680, U+2000 to U+200A, U+2028,
  U+2029, U+202F, U+205F, U+3000 and U+FEFF, each a single code unit.
\<close>

type_synonym js_string = "nat list"

definition is_space :: "nat \<Rightarrow> bool" where
  "is_space u =
     (u \<in> set [0x0009, 0x000A, 0x000B, 0x000C, 0x000D, 0x0020, 0x00A0, 0x1680, 0x2028,
                0x2029, 0x202F, 0x205F, 0x3000, 0xFEFF]
      \<or> (0x2000 \<le> u \<and> u \<le> 0x200A))"

definition trim :: "js_string \<Rightarrow> js_string" where
  "trim s = rev (dropWhile is_space (rev (dropWhile is_space s)))"

text \<open>The code units of a text of ASCII characters, to write strings down.\<close>

definition utf16 :: "string \<Rightarrow> js_string" where
  "utf16 s = map of_char s"

section \<open>The IndexedDB store of the workout logger (db.js)\<close>

text \<open>
  The Dexie schema declares three tables with auto-incremented primary keys:
  \<^verbatim>\<open>workouts: '++id, date'\<close>, \<^verbatim>\<open>exercises: '++id, workoutId, name, order'\<close> and
  \<^verbatim>\<open>sets: '++id, exerciseId, order'\<close>.  A table is a list of rows in primary-key order
  together with its key generator.  JavaScript numbers are modelled as rationals
  (rounding of IEEE doubles is outside the model); \<^verbatim>\<open>Date.now()\<close> is a parameter.
\<close>

record workout =
  w_id :: nat
  w_date :: string
  w_createdAt :: nat

record exercise =
  e_id :: nat
  e_workoutId :: nat
  e_name :: js_string
  e_order :: nat

text \<open>One entry of a set's \<^verbatim>\<open>repDetails\<close> array.\<close>

record rep_detail =
  rd_repNumber :: int
  rd_avgVelocity :: rat
  rd_peakVelocity :: rat
  rd_duration :: rat

text \<open>
  A row of \<^verbatim>\<open>sets\<close>.  \<open>s_weight\<close> holds the text of the weight input, which the source
  hands to \<^verbatim>\<open>Number()\<close>; no property below reads its numeric value.
\<close>

record set_row =
  s_id :: nat
  s_exerciseId :: nat
  s_weight :: js_string
  s_reps :: int
  s_rpe :: "rat option"
  s_avgVelocity :: "rat option"
  s_repDetails :: "rep_detail list option"
  s_order :: nat
  s_timestamp :: nat

record db =
  workouts :: "workout list"
  workouts_key :: nat
  exercises :: "exercise list"
  exercises_key :: nat
  sets :: "set_row list"
  sets_key :: nat

definition empty_db :: db where
  "empty_db = \<lparr>workouts = [], workouts_key = 1, exercises = [], exercises_key = 1,
               sets = [], sets_key = 1\<rparr>"

text \<open>\<^verbatim>\<open>db.workouts.where('date').equals(date).first()\<close>: the matching row of least key.\<close>

definition getWorkoutByDate :: "string \<Rightarrow> db \<Rightarrow> workout option" where
  "getWorkoutByDate date d = find (\<lambda>w. w_date w = date) (workouts d)"

text \<open>
  \<^verbatim>\<open>
  export async function createWorkout(date) {
    const existing = await db.workouts.where('date').equals(date).first();
    if (existing) return existing.id;
    return db.workouts.add({ date, createdAt: Date.now() });
  }
  \<close>
\<close>

definition createWorkout :: "string \<Rightarrow> nat \<Rightarrow> db \<Rightarrow> nat \<times> db" where
  "createWorkout date now d =
     (case find (\<lambda>w. w_date w = date) (workouts d) of
        Some existing \<Rightarrow> (w_id existing, d)
      | None \<Rightarrow>
          (workouts_key d,
           d\<lparr>workouts := workouts d @ [\<lparr>w_id = workouts_key d, w_date = date, w_createdAt = now\<rparr>],
             workouts_key := workouts_key d + 1\<rparr>))"

text \<open>
  \<^verbatim>\<open>
  export async function addExercise(workoutId, name) {
    const count = await db.exercises.where('workoutId').equals(workoutId).count();
    return db.exercises.add({ workoutId, name: name.trim(), order: count });
  }
  export async function getExercisesForWorkout(workoutId) {
    return db.exercises.where('workoutId').equals(workoutId).sortBy('order');
  }
  \<close>
\<close>

definition addExercise :: "nat \<Rightarrow> js_string \<Rightarrow> db \<Rightarrow> nat \<times> db" where
  "addExercise workoutId name d =
     (let count = length (filter (\<lambda>e. e_workoutId e = workoutId) (exercises d))
      in (exercises_key d,
          d\<lparr>exercises := exercises d @
               [\<lparr>e_id = exercises_key d, e_workoutId = workoutId, e_name = trim name,
                 e_order = count\<rparr>],
            exercises_key := exercises_key d + 1\<rparr>))"

definition getExercisesForWorkout :: "nat \<Rightarrow> db \<Rightarrow> exercise list" where
  "getExercisesForWorkout workoutId d =
     sort_key e_order (filter (\<lambda>e. e_workoutId e = workoutId) (exercises d))"

text \<open>
  \<^verbatim>\<open>
  export async function addSet(exerciseId, weight, reps, rpe = null, avgVelocity = null,
                               repDetails = null) {
    const count = await db.sets.where('exerciseId').equals(exerciseId).count();
    return db.sets.add({
      exerciseId, weight: Number(weight), reps: Number(reps),
      rpe: rpe ? Number(rpe) : null,
      avgVelocity: avgVelocity ? Number(avgVelocity) : null,
      repDetails: repDetails || null,
      order: count, timestamp: Date.now(),
    });
  }
  \<close>
  A number is falsy when it is zero, \<^verbatim>\<open>null\<close> is falsy, an array is always truthy.
\<close>

definition truthy_opt :: "rat option \<Rightarrow> rat option" where
  "truthy_opt x = (case x of None \<Rightarrow> None | Some q \<Rightarrow> if q \<noteq> 0 then Some q else None)"

definition addSet ::
  "nat \<Rightarrow> js_string \<Rightarrow> int \<Rightarrow> rat option \<Rightarrow> rat option \<Rightarrow> rep_detail list option \<Rightarrow> nat
     \<Rightarrow> db
     \<Rightarrow> nat \<times> db" where
  "addSet exerciseId weight reps rpe avgVelocity repDetails now d =
     (let count = length (filter (\<lambda>s. s_exerciseId s = exerciseId) (sets d))
      in (sets_key d,
          d\<lparr>sets := sets d @
               [\<lparr>s_id = sets_key d, s_exerciseId = exerciseId, s_weight = weight,
                 s_reps = reps, s_rpe = truthy_opt rpe, s_avgVelocity = truthy_opt avgVelocity,
                 s_repDetails = repDetails, s_order = count, s_timestamp = now\<rparr>],
            sets_key := sets_key d + 1\<rparr>))"

section \<open>VelocityView: state and WebSocket messages\<close>

text \<open>
  The messages the view reads (\<^verbatim>\<open>ws.onmessage\<close>); the schema in SYSTEM_OVERVIEW.md gives
  every field as a number (the phase as a string).  A message that does not parse, or of
  another type, is \<open>Other\<close>.
\<close>

record frame_msg =
  hardware_velocity :: rat
  phase_name :: string
  rep_count :: int

record rep_msg =
  rep_number :: int
  max_velocity :: rat
  avg_velocity :: rat
  duration :: rat

datatype ws_msg = Frame frame_msg | RepCompleted rep_msg | Other

text \<open>The value of \<^verbatim>\<open>lastRep\<close>.\<close>

record rep_data =
  lr_number :: int
  lr_maxVelocity :: rat
  lr_avgVelocity :: rat
  lr_duration :: rat

text \<open>
  The command sent by \<^verbatim>\<open>handleStartSet\<close>; \<open>c_weight\<close> is the text handed to
  \<^verbatim>\<open>parseFloat\<close>.
\<close>

record command =
  c_command :: string
  c_exercise :: js_string
  c_weight :: js_string
  c_unit :: string

text \<open>
  The component state that the handlers below read or write.  \<open>autoEndTimer\<close> is the
  deadline (in ms) of the pending auto-end timeout, if one is pending.  The autocomplete
  state, the connection indicator, the confirmation banner and the session log cache are
  display only and left out.
\<close>

record view =
  velocity :: rat
  phase :: string
  repCount :: int
  peakVelocity :: rat
  lastRep :: "rep_data option"
  exerciseName :: js_string
  weight :: js_string
  isTracking :: bool
  repDetails :: "rep_detail list"
  autoEndTimer :: "nat option"
  error :: "string option"

definition initial_view :: view where
  "initial_view = \<lparr>velocity = 0, phase = ''idle'', repCount = 0, peakVelocity = 0,
     lastRep = None, exerciseName = [], weight = [], isTracking = False, repDetails = [],
     autoEndTimer = None, error = None\<rparr>"

definition AUTO_END_DELAY :: nat where
  "AUTO_END_DELAY = 5000"

text \<open>\<^verbatim>\<open>a || b\<close> on numbers: \<open>a\<close> unless it is zero.\<close>

definition js_or :: "rat \<Rightarrow> rat \<Rightarrow> rat" where
  "js_or a b = (if a \<noteq> 0 then a else b)"

text \<open>
  \<^verbatim>\<open>
  if (data.type === 'frame') {
    setVelocity(data.hardware_velocity || 0);
    setPhase(data.phase || 'idle');
    setRepCount(data.rep_count || 0);
  } else if (data.type === 'rep_completed') {
    const repData = { number: data.rep_number, maxVelocity: data.max_velocity / 1000,
                      avgVelocity: data.avg_velocity / 1000, duration: data.duration };
    setLastRep(repData);
    if (data.max_velocity) {
      setPeakVelocity(prev => Math.max(prev, data.max_velocity / 1000));
    }
    if (data.avg_velocity) {
      setRepDetails(prev => {
        if (prev.some(r => r.repNumber === data.rep_number)) { return prev; }
        return [...prev, { repNumber: data.rep_number,
          avgVelocity: data.avg_velocity / 1000,
          peakVelocity: (data.max_velocity || data.avg_velocity) / 1000,
          duration: data.duration || 0 }];
      });
    }
  }
  \<close>
\<close>

definition setRepDetails_append :: "rep_msg \<Rightarrow> rep_detail list \<Rightarrow> rep_detail list" where
  "setRepDetails_append m prev =
     (if list_ex (\<lambda>r. rd_repNumber r = rep_number m) prev then prev
      else prev @ [\<lparr>rd_repNumber = rep_number m,
                    rd_avgVelocity = avg_velocity m / 1000,
                    rd_peakVelocity = js_or (max_velocity m) (avg_velocity m) / 1000,
                    rd_duration = js_or (duration m) 0\<rparr>])"

definition onmessage :: "ws_msg \<Rightarrow> view \<Rightarrow> view" where
  "onmessage msg v =
     (case msg of
        Frame f \<Rightarrow>
          v\<lparr>velocity := js_or (hardware_velocity f) 0,
            phase := (if phase_name f \<noteq> [] then phase_name f else ''idle''),
            repCount := rep_count f\<rparr>
      | RepCompleted m \<Rightarrow>
          (let v1 = v\<lparr>lastRep := Some \<lparr>lr_number = rep_number m,
                                        lr_maxVelocity = max_velocity m / 1000,
                                        lr_avgVelocity = avg_velocity m / 1000,
                                        lr_duration = duration m\<rparr>\<rparr>;
               v2 = (if max_velocity m \<noteq> 0
                     then v1\<lparr>peakVelocity := max (peakVelocity v1) (max_velocity m / 1000)\<rparr>
                     else v1)
           in if avg_velocity m \<noteq> 0
              then v2\<lparr>repDetails := setRepDetails_append m (repDetails v2)\<rparr>
              else v2)
      | Other \<Rightarrow> v)"

text \<open>
  \<^verbatim>\<open>const isValid = exerciseName.trim() && weight !== '';\<close>  The Start button carries
  \<^verbatim>\<open>disabled={!isValid}\<close>.
\<close>

definition isValid :: "view \<Rightarrow> bool" where
  "isValid v = (trim (exerciseName v) \<noteq> [] \<and> weight v \<noteq> [])"

text \<open>
  \<^verbatim>\<open>
  const handleStartSet = () => {
    if (!exerciseName.trim() || !weight) return;
    if (wsRef.current && wsRef.current.readyState === WebSocket.OPEN) {
      wsRef.current.send(JSON.stringify({ command: 'start_set',
        exercise: exerciseName.trim(), weight: parseFloat(weight), unit: 'lbs' }));
    }
    setIsTracking(true); setRepCount(0); setLastRep(null);
    setPeakVelocity(0); setRepDetails([]);
  };
  \<close>
  The result is the new state and the commands sent on the socket; \<open>ws_open\<close> says that
  the socket exists and is open.
\<close>

definition handleStartSet :: "bool \<Rightarrow> view \<Rightarrow> view \<times> command list" where
  "handleStartSet ws_open v =
     (if trim (exerciseName v) = [] \<or> weight v = [] then (v, [])
      else (v\<lparr>isTracking := True, repCount := 0, lastRep := None, peakVelocity := 0,
              repDetails := []\<rparr>,
            if ws_open
            then [\<lparr>c_command = ''start_set'', c_exercise = trim (exerciseName v),
                   c_weight = weight v, c_unit = ''lbs''\<rparr>]
            else []))"

section \<open>VelocityView: ending a set\<close>

text \<open>
  The awaited calls of the \<^verbatim>\<open>try\<close> block of \<^verbatim>\<open>handleEndSet\<close>.  Each of them may
  reject; a call that rejects has no effect on the store, and control passes to the
  \<^verbatim>\<open>catch\<close> clause.  \<open>fault\<close> names the call that rejects in one run of the handler,
  if any.
\<close>

datatype db_call =
    OpCreateWorkout | OpGetWorkoutByDate | OpGetExercisesForWorkout | OpAddExercise
  | OpAddSet | OpGetAllExerciseNames | OpLoadSessionHistory | OpOnSetLogged

text \<open>
  \<^verbatim>\<open>
  try {
    await createWorkout(date);
    const workout = await getWorkoutByDate(date);
    const exercises = await getExercisesForWorkout(workout.id);
    let exercise = exercises.find(
      (e) => e.name.toLowerCase() === savedExercise.toLowerCase());
    if (!exercise) {
      const exId = await addExercise(workout.id, savedExercise);
      exercise = { id: exId, name: savedExercise };
    }
    await addSet(exercise.id, savedWeight, savedReps, null, avgVelocity, savedRepDetails);
    const names = await getAllExerciseNames();
    setAllNames(names);
    ...
    await loadSessionHistory();
    onSetLogged?.();
  } catch (err) { ... }
  \<close>
  \<^verbatim>\<open>String.prototype.toLowerCase\<close> is the parameter \<open>lc\<close>: what follows holds for
  every function in its place.
  The result is \<open>True\<close> when the block ran to its end and \<open>False\<close> when it threw,
  with the store as the calls before the throw left it.  \<open>storeSet\<close> is the block from
  \<^verbatim>\<open>addSet\<close> on, once the exercise row is known.
\<close>

definition storeSet ::
  "db_call option \<Rightarrow> nat \<Rightarrow> js_string \<Rightarrow> int \<Rightarrow> rat option \<Rightarrow> rep_detail list \<Rightarrow> nat
     \<Rightarrow> db
     \<Rightarrow> bool \<times> db" where
  "storeSet fault exerciseId savedWeight savedReps avgVelocity savedRepDetails now d =
     (if fault = Some OpAddSet then (False, d)
      else let d' = snd (addSet exerciseId savedWeight savedReps None avgVelocity
                           (Some savedRepDetails) now d)
           in if fault = Some OpGetAllExerciseNames \<or> fault = Some OpLoadSessionHistory
                 \<or> fault = Some OpOnSetLogged
              then (False, d') else (True, d'))"

definition logSet ::
  "db_call option \<Rightarrow> (js_string \<Rightarrow> js_string) \<Rightarrow> string \<Rightarrow> nat \<Rightarrow> js_string \<Rightarrow> js_string
     \<Rightarrow> int \<Rightarrow> rat option \<Rightarrow> rep_detail list \<Rightarrow> db \<Rightarrow> bool \<times> db" where
  "logSet fault lc date now savedExercise savedWeight savedReps avgVelocity savedRepDetails d =
     (if fault = Some OpCreateWorkout then (False, d)
      else let d1 = snd (createWorkout date now d)
           in if fault = Some OpGetWorkoutByDate then (False, d1)
              else case getWorkoutByDate date d1 of
                     None \<Rightarrow> (False, d1)
                   | Some workout \<Rightarrow>
                       if fault = Some OpGetExercisesForWorkout then (False, d1)
                       else (case find (\<lambda>e. lc (e_name e) = lc savedExercise)
                                    (getExercisesForWorkout (w_id workout) d1) of
                               Some exercise \<Rightarrow>
                                 storeSet fault (e_id exercise) savedWeight savedReps
                                   avgVelocity savedRepDetails now d1
                             | None \<Rightarrow>
                                 if fault = Some OpAddExercise then (False, d1)
                                 else (case addExercise (w_id workout) savedExercise d1 of
                                         (exId, d2) \<Rightarrow>
                                           storeSet fault exId savedWeight savedReps
                                             avgVelocity savedRepDetails now d2)))"

text \<open>
  \<^verbatim>\<open>
  const handleEndSet = async () => {
    if (autoEndTimerRef.current) {
      clearTimeout(autoEndTimerRef.current); autoEndTimerRef.current = null;
    }
    const actualReps = repDetails.length > 0 ? repDetails.length : repCount;
    if (!isTracking || actualReps === 0) {
      setIsTracking(false); setRepDetails([]); return;
    }
    const savedReps = actualReps;
    const savedExercise = exerciseName.trim();
    const savedWeight = weight;
    const savedRepDetails = [...repDetails];
    const avgVelocity = repDetails.length > 0
      ? repDetails.reduce((sum, r) => sum + r.avgVelocity, 0) / repDetails.length
      : null;
    try { ... } catch (err) {
      console.error('Failed to log set:', err);
      setError('Failed to log set. Tap to retry.');
      return; // Don't reset tracking state so user can retry
    }
    setIsTracking(false); setRepCount(0); setRepDetails([]);
    setLastRep(null); setPeakVelocity(0);
  };
  \<close>
\<close>

definition actualReps :: "view \<Rightarrow> int" where
  "actualReps v = (if length (repDetails v) > 0 then int (length (repDetails v)) else repCount v)"

definition meanVelocity :: "rep_detail list \<Rightarrow> rat option" where
  "meanVelocity rds =
     (if length rds > 0
      then Some (foldl (\<lambda>sum r. sum + rd_avgVelocity r) 0 rds / of_nat (length rds))
      else None)"

definition retry_notice :: string where
  "retry_notice = ''Failed to log set. Tap to retry.''"

definition handleEndSet ::
  "db_call option \<Rightarrow> (js_string \<Rightarrow> js_string) \<Rightarrow> string \<Rightarrow> nat \<Rightarrow> view \<Rightarrow> db
     \<Rightarrow> view \<times> db" where
  "handleEndSet fault lc date now v d =
     (let v0 = v\<lparr>autoEndTimer := None\<rparr>
      in if \<not> isTracking v \<or> actualReps v = 0
         then (v0\<lparr>isTracking := False, repDetails := []\<rparr>, d)
         else (case logSet fault lc date now (trim (exerciseName v)) (weight v) (actualReps v)
                      (meanVelocity (repDetails v)) (repDetails v) d of
                 (True, d') \<Rightarrow>
                   (v0\<lparr>isTracking := False, repCount := 0, repDetails := [], lastRep := None,
                       peakVelocity := 0\<rparr>, d')
               | (False, d') \<Rightarrow> (v0\<lparr>error := Some retry_notice\<rparr>, d')))"

section \<open>VelocityView: the auto-end effect and the event loop\<close>

text \<open>
  \<^verbatim>\<open>
  useEffect(() => {
    if (!isTracking || repDetails.length === 0) return;
    if (autoEndTimerRef.current) { clearTimeout(autoEndTimerRef.current); }
    autoEndTimerRef.current = setTimeout(() => {
      if (isTracking && repDetails.length > 0) { handleEndSet(); }
    }, AUTO_END_DELAY);
    return () => {
      if (autoEndTimerRef.current) { clearTimeout(autoEndTimerRef.current); }
    };
  }, [repDetails.length, isTracking]);
  \<close>
  React runs the effect after a render in which a dependency changed, after the cleanup
  of its previous run.  A timeout is only ever created by this effect, and every run
  that creates one registers the cleanup, so a change of dependencies leaves no timeout
  pending before the body runs.
\<close>

definition autoEndEffect :: "nat \<Rightarrow> view \<Rightarrow> view \<Rightarrow> view" where
  "autoEndEffect now before after =
     (if length (repDetails after) = length (repDetails before)
         \<and> isTracking after = isTracking before
      then after
      else if \<not> isTracking after \<or> length (repDetails after) = 0
      then after\<lparr>autoEndTimer := None\<rparr>
      else after\<lparr>autoEndTimer := Some (now + AUTO_END_DELAY)\<rparr>)"

text \<open>
  The component with what surrounds it: the store, the commands sent on the socket,
  whether the socket is open, and the clock in ms.
\<close>

record world =
  ui :: view
  store :: db
  sent :: "command list"
  ws_open :: bool
  clock :: nat

definition initial_world :: "db \<Rightarrow> world" where
  "initial_world d = \<lparr>ui = initial_view, store = d, sent = [], ws_open = False, clock = 0\<rparr>"

text \<open>
  What can happen to the component.  The exercise and weight inputs and the Start button
  are rendered only while \<^verbatim>\<open>!isTracking\<close> (and a disabled Start button takes no click), the End button only while \<^verbatim>\<open>isTracking\<close>,
  the error banner (whose click is \<^verbatim>\<open>setError(null); handleEndSet()\<close>) only while
  \<^verbatim>\<open>error\<close> is set.  \<open>Tick\<close> is the passing of one millisecond, at which a pending
  timeout whose deadline is reached runs its callback.  The callback reads
  \<^verbatim>\<open>isTracking\<close> and \<^verbatim>\<open>repDetails\<close> of the render in which the effect ran; the effect
  runs again whenever \<^verbatim>\<open>isTracking\<close> or the length of the list changes, so these are
  the current ones.  The events that run \<^verbatim>\<open>handleEndSet\<close> carry the fault of that run.
  The \<^verbatim>\<open>date\<close> property of the component is a parameter.
\<close>

datatype event =
    SocketOpen | SocketClose
  | Message ws_msg
  | TypeExercise js_string | TypeWeight js_string
  | ClickStart
  | ClickEnd "db_call option"
  | ClickRetry "db_call option"
  | Tick "db_call option"

definition endSet ::
  "db_call option \<Rightarrow> (js_string \<Rightarrow> js_string) \<Rightarrow> string \<Rightarrow> world \<Rightarrow> world" where
  "endSet fault lc date w =
     (case handleEndSet fault lc date (clock w) (ui w) (store w) of
        (v, d) \<Rightarrow> w\<lparr>ui := v, store := d\<rparr>)"

fun handle :: "(js_string \<Rightarrow> js_string) \<Rightarrow> string \<Rightarrow> event \<Rightarrow> world \<Rightarrow> world" where
  "handle lc date SocketOpen w = w\<lparr>ws_open := True\<rparr>"
| "handle lc date SocketClose w = w\<lparr>ws_open := False\<rparr>"
| "handle lc date (Message m) w = w\<lparr>ui := onmessage m (ui w)\<rparr>"
| "handle lc date (TypeExercise s) w =
     (if isTracking (ui w) then w else w\<lparr>ui := (ui w)\<lparr>exerciseName := s\<rparr>\<rparr>)"
| "handle lc date (TypeWeight s) w =
     (if isTracking (ui w) then w else w\<lparr>ui := (ui w)\<lparr>weight := s\<rparr>\<rparr>)"
| "handle lc date ClickStart w =
     (if isTracking (ui w) \<or> \<not> isValid (ui w) then w
      else case handleStartSet (ws_open w) (ui w) of
             (v, cs) \<Rightarrow> w\<lparr>ui := v, sent := sent w @ cs\<rparr>)"
| "handle lc date (ClickEnd fault) w =
     (if isTracking (ui w) then endSet fault lc date w else w)"
| "handle lc date (ClickRetry fault) w =
     (if error (ui w) \<noteq> None then endSet fault lc date (w\<lparr>ui := (ui w)\<lparr>error := None\<rparr>\<rparr>)
      else w)"
| "handle lc date (Tick fault) w =
     (let w1 = w\<lparr>clock := clock w + 1\<rparr>
      in case autoEndTimer (ui w1) of
           None \<Rightarrow> w1
         | Some deadline \<Rightarrow>
             if deadline \<le> clock w1
             then (let w2 = w1\<lparr>ui := (ui w1)\<lparr>autoEndTimer := None\<rparr>\<rparr>
                   in if isTracking (ui w2) \<and> length (repDetails (ui w2)) > 0
                      then endSet fault lc date w2 else w2)
             else w1)"

text \<open>One event: its handler, then the render and the auto-end effect.\<close>

definition dispatch :: "(js_string \<Rightarrow> js_string) \<Rightarrow> string \<Rightarrow> event \<Rightarrow> world \<Rightarrow> world" where
  "dispatch lc date e w =
     (let w' = handle lc date e w in w'\<lparr>ui := autoEndEffect (clock w') (ui w) (ui w')\<rparr>)"

definition run :: "(js_string \<Rightarrow> js_string) \<Rightarrow> string \<Rightarrow> event list \<Rightarrow> world \<Rightarrow> world" where
  "run lc date es w = foldl (\<lambda>w e. dispatch lc date e w) w es"

section \<open>The engine: fatigue detector\<close>

text \<open>
  The engine (\<^verbatim>\<open>velocitytracker/backend/fatigue_detector.py\<close>, \<^verbatim>\<open>velocity_processor.py\<close>)
  is described by SYSTEM_OVERVIEW.md and by the specification only.  Velocities and
  timestamps are rationals.
\<close>

record rep_record =
  rr_repNumber :: nat
  rr_avgVelocity :: rat
  rr_peakVelocity :: rat
  rr_durationSeconds :: rat

record fatigue_state =
  baselineVelocity :: "rat option"
  alertActive :: bool
  lastDropPercentage :: rat

record fatigue_warning =
  fw_dropPercentage :: rat
  fw_currentVelocity :: rat
  fw_baselineVelocity :: rat

definition mean :: "rat list \<Rightarrow> rat" where
  "mean xs = sum_list xs / of_nat (length xs)"

text \<open>The last \<open>n\<close> elements of a list (all of it when it is shorter).\<close>

definition lastn :: "nat \<Rightarrow> 'a list \<Rightarrow> 'a list" where
  "lastn n xs = drop (length xs - n) xs"

text \<open>
  Modelled from the spec: the fatigue detector, whose code (\<^verbatim>\<open>fatigue_detector.py\<close>) is
  not among the sources.  The fatigue state of a set "resets fully when a new SetSession
  starts".
\<close>

definition fresh_fatigue :: fatigue_state where
  "fresh_fatigue = \<lparr>baselineVelocity = None, alertActive = False, lastDropPercentage = 0\<rparr>"

text \<open>
  Modelled from the spec: the fatigue detector's reaction to a rep record, given the
  rep records of the active set with the new one appended.  The baseline is "the mean
  avgVelocity of the first 3 RepRecords", computed "only after exactly 3 reps exist";
  "for every RepRecord beyond the third" the smoothed value is the mean of "the most
  recent 3 RepRecords", \<^verbatim>\<open>dropPercentage = (baseline - smoothed) / baseline * 100\<close>
  "clamped to \<ge> 0", the alert is the level \<^verbatim>\<open>dropPercentage \<ge> 11\<close>, and the warning is
  "published only on alert state transition" from inactive to active.  (The spec's "or
  the drop percentage materially changes" names no measure and is not modelled.)
  SYSTEM_OVERVIEW.md gives the same computation:
  \<^verbatim>\<open>
  baseline = mean(rep_velocities[:3])
  for rep in rep_velocities[3:]:
      smoothed = moving_average(last_3_reps)
      drop = (baseline - smoothed) / baseline
      if drop >= 0.11:  # 11% threshold
          trigger_fatigue_alert()
  \<close>
\<close>

definition fatigue_on_rep ::
  "rep_record list \<Rightarrow> fatigue_state \<Rightarrow> fatigue_state \<times> fatigue_warning list" where
  "fatigue_on_rep reps fs =
     (case baselineVelocity fs of
        None \<Rightarrow>
          if length reps = 3
          then (fs\<lparr>baselineVelocity := Some (mean (map rr_avgVelocity reps))\<rparr>, [])
          else (fs, [])
      | Some baseline \<Rightarrow>
          (let smoothed = mean (map rr_avgVelocity (lastn 3 reps));
               dropPercentage = max 0 ((baseline - smoothed) / baseline * 100);
               alert = (dropPercentage \<ge> 11)
           in (fs\<lparr>alertActive := alert, lastDropPercentage := dropPercentage\<rparr>,
               if alert \<and> \<not> alertActive fs
               then [\<lparr>fw_dropPercentage = dropPercentage, fw_currentVelocity = smoothed,
                      fw_baselineVelocity = baseline\<rparr>]
               else [])))"

text \<open>
  Modelled from the spec: the part of the engine tick that follows a completed rep ("if
  a RepRecord was produced, append to active SetSession and feed Fatigue Detector"),
  and its iteration over the reps of a set; the engine loop is not among the sources.
\<close>

record active_set =
  as_reps :: "rep_record list"
  as_fatigue :: fatigue_state

definition fresh_set :: active_set where
  "fresh_set = \<lparr>as_reps = [], as_fatigue = fresh_fatigue\<rparr>"

definition record_rep :: "rep_record \<Rightarrow> active_set \<Rightarrow> active_set \<times> fatigue_warning list" where
  "record_rep r s =
     (case fatigue_on_rep (as_reps s @ [r]) (as_fatigue s) of
        (fs, warnings) \<Rightarrow> (\<lparr>as_reps = as_reps s @ [r], as_fatigue = fs\<rparr>, warnings))"

fun record_reps :: "rep_record list \<Rightarrow> active_set \<Rightarrow> active_set \<times> fatigue_warning list" where
  "record_reps [] s = (s, [])"
| "record_reps (r # rs) s =
     (case record_rep r s of
        (s1, ws1) \<Rightarrow> (case record_reps rs s1 of (s2, ws2) \<Rightarrow> (s2, ws1 @ ws2)))"

text \<open>A rep record with a given average velocity, for the examples.\<close>

definition rep_of :: "nat \<Rightarrow> rat \<Rightarrow> rep_record" where
  "rep_of n v = \<lparr>rr_repNumber = n, rr_avgVelocity = v, rr_peakVelocity = v,
     rr_durationSeconds = 2\<rparr>"

section \<open>The engine: rep tracker\<close>

datatype Phase = Idle | Ascending | Descending

record sample =
  sm_timestamp :: rat
  sm_velocity :: rat

record tracker_config =
  movementThreshold :: rat
  restThreshold :: rat
  minPhaseDuration :: rat
  stationaryWindow :: nat
  stationaryStdDev :: rat

text \<open>
  Modelled from the spec: the defaults of the tracker parameters
  (\<^verbatim>\<open>movementThreshold = 0.10 m/s\<close>, \<^verbatim>\<open>restThreshold = 0.05 m/s\<close>,
  \<^verbatim>\<open>minPhaseDuration = 0.15 s\<close>, \<^verbatim>\<open>stationaryWindow = 50 samples\<close>,
  \<^verbatim>\<open>stationaryStdDev = 0.02 m/s\<close>); \<^verbatim>\<open>config.py\<close> is not among the sources.
\<close>

definition default_config :: tracker_config where
  "default_config = \<lparr>movementThreshold = 1/10, restThreshold = 1/20, minPhaseDuration = 3/20,
     stationaryWindow = 50, stationaryStdDev = 1/50\<rparr>"

record phase_event =
  pe_phase :: Phase
  pe_enteredAt :: rat
  pe_exitedAt :: rat

text \<open>
  The state of the tracker: the current phase and when it was entered; the transition
  attempt in progress (the incoming phase and since when its condition has held); the
  phase events of the rep cycle in progress; the absolute velocities of its non-idle
  samples; the last \<open>stationaryWindow\<close> velocities; the last accepted timestamp; the rep
  count of the set.
\<close>

record tracker =
  tr_phase :: Phase
  tr_enteredAt :: rat
  tr_pending :: "(Phase \<times> rat) option"
  tr_events :: "phase_event list"
  tr_cycle :: "rat list"
  tr_window :: "rat list"
  tr_lastTimestamp :: "rat option"
  tr_repCount :: nat

definition fresh_tracker :: tracker where
  "fresh_tracker = \<lparr>tr_phase = Idle, tr_enteredAt = 0, tr_pending = None, tr_events = [],
     tr_cycle = [], tr_window = [], tr_lastTimestamp = None, tr_repCount = 0\<rparr>"

text \<open>
  Modelled from the spec: the sign convention of the phases ("velocity > movement
  threshold: candidate Ascending; velocity < -movement threshold: candidate Descending;
  |velocity| < rest threshold sustained: candidate Idle"); between the two thresholds
  no phase is a candidate.  The tracker's code (\<^verbatim>\<open>VelocityRepTracker\<close>) is not among
  the sources.
\<close>

definition candidate :: "tracker_config \<Rightarrow> rat \<Rightarrow> Phase option" where
  "candidate c v =
     (if v > movementThreshold c then Some Ascending
      else if v < - movementThreshold c then Some Descending
      else if \<bar>v\<bar> < restThreshold c then Some Idle
      else None)"

text \<open>
  Modelled from the spec: stationary detection ("the standard deviation of the last
  stationaryWindow samples' velocity ... drops below stationaryStdDev"), of the absent
  tracker.  The standard deviation is below a non-negative bound exactly when the
  variance is below its square.
\<close>

definition variance :: "rat list \<Rightarrow> rat" where
  "variance xs = mean (map (\<lambda>x. (x - mean xs)\<^sup>2) xs)"

definition stationary :: "tracker_config \<Rightarrow> rat list \<Rightarrow> bool" where
  "stationary c w =
     (0 < length w \<and> length w = stationaryWindow c \<and> variance w < (stationaryStdDev c)\<^sup>2)"

text \<open>
  Modelled from the spec: when a rep cycle is complete ("both non-idle phases occurred
  with duration \<ge> minPhaseDuration before returning to Idle"), of the absent tracker.
\<close>

definition lasted :: "tracker_config \<Rightarrow> Phase \<Rightarrow> phase_event list \<Rightarrow> bool" where
  "lasted c q es =
     list_ex (\<lambda>e. pe_phase e = q \<and> pe_exitedAt e - pe_enteredAt e \<ge> minPhaseDuration c) es"

definition complete_cycle :: "tracker_config \<Rightarrow> phase_event list \<Rightarrow> bool" where
  "complete_cycle c es = (lasted c Descending es \<and> lasted c Ascending es)"

text \<open>
  Modelled from the spec: the transition of the absent tracker into phase \<open>q\<close> at time
  \<open>t\<close>.  The phase left is recorded as a phase event of the cycle.  On the return to
  Idle the cycle ends: when it is complete a rep record is emitted ("avgVelocity = mean
  |velocity| over the non-idle samples of the cycle; peakVelocity = max |velocity| over
  the same window; durationSeconds = cycle wall-clock span; repNumber = previous count
  + 1"), otherwise the cycle is discarded; the phase events are "discarded once a rep
  completes or the cycle is aborted as noise".
\<close>

definition enter :: "tracker_config \<Rightarrow> Phase \<Rightarrow> rat \<Rightarrow> tracker \<Rightarrow> tracker \<times> rep_record option" where
  "enter c q t tr =
     (let es = (if tr_phase tr = Idle then tr_events tr
                else tr_events tr @ [\<lparr>pe_phase = tr_phase tr, pe_enteredAt = tr_enteredAt tr,
                                       pe_exitedAt = t\<rparr>]);
          tr1 = tr\<lparr>tr_phase := q, tr_enteredAt := t, tr_pending := None\<rparr>
      in if q \<noteq> Idle then (tr1\<lparr>tr_events := es\<rparr>, None)
         else if complete_cycle c es
         then (tr1\<lparr>tr_events := [], tr_cycle := [], tr_repCount := tr_repCount tr + 1\<rparr>,
               Some \<lparr>rr_repNumber = tr_repCount tr + 1,
                     rr_avgVelocity = mean (tr_cycle tr),
                     rr_peakVelocity = fold max (tr_cycle tr) 0,
                     rr_durationSeconds = t - pe_enteredAt (hd es)\<rparr>)
         else (tr1\<lparr>tr_events := [], tr_cycle := []\<rparr>, None))"

text \<open>
  Modelled from the spec: one sample through the absent tracker.  A sample whose
  timestamp is not after the last one is "ignored (sample rejected, no state change)".
  When the window is stationary the tracker is forced to Idle at once, which settles
  the phase in progress like an accepted transition (the data gathered is kept; the
  cycle is abandoned when it is incomplete).  Otherwise "a transition out of the current
  phase is only accepted once the incoming phase's directional condition has held
  continuously for at least minPhaseDuration", and an attempt that does not survive is
  dropped with the state unchanged.
\<close>

definition track :: "tracker_config \<Rightarrow> sample \<Rightarrow> tracker \<Rightarrow> tracker \<times> rep_record option" where
  "track c s tr =
     (if (case tr_lastTimestamp tr of None \<Rightarrow> False | Some t0 \<Rightarrow> sm_timestamp s \<le> t0)
      then (tr, None)
      else
        (let t = sm_timestamp s;
             v = sm_velocity s;
             w = lastn (stationaryWindow c) (tr_window tr @ [v]);
             tr0 = tr\<lparr>tr_lastTimestamp := Some t, tr_window := w\<rparr>;
             res =
               (if stationary c w
                then (if tr_phase tr0 = Idle then (tr0\<lparr>tr_pending := None\<rparr>, None)
                      else enter c Idle t tr0)
                else case candidate c v of
                       None \<Rightarrow> (tr0\<lparr>tr_pending := None\<rparr>, None)
                     | Some q \<Rightarrow>
                         if q = tr_phase tr0 then (tr0\<lparr>tr_pending := None\<rparr>, None)
                         else (let since = (case tr_pending tr0 of
                                              None \<Rightarrow> t
                                            | Some (q', t0) \<Rightarrow> if q' = q then t0 else t)
                               in if t - since \<ge> minPhaseDuration c then enter c q t tr0
                                  else (tr0\<lparr>tr_pending := Some (q, since)\<rparr>, None)))
         in (if tr_phase (fst res) \<noteq> Idle
             then (fst res)\<lparr>tr_cycle := tr_cycle (fst res) @ [\<bar>v\<bar>]\<rparr>
             else fst res,
             snd res)))"

text \<open>
  The rep records emitted over a sequence of samples, and the phases the tracker goes
  through over it: each change of phase with the time of the sample that made it.
\<close>

fun reps_emitted :: "tracker_config \<Rightarrow> sample list \<Rightarrow> tracker \<Rightarrow> rep_record list" where
  "reps_emitted c [] tr = []"
| "reps_emitted c (s # ss) tr =
     (case snd (track c s tr) of None \<Rightarrow> [] | Some r \<Rightarrow> [r])
       @ reps_emitted c ss (fst (track c s tr))"

fun phase_trace :: "tracker_config \<Rightarrow> sample list \<Rightarrow> tracker \<Rightarrow> (Phase \<times> rat) list" where
  "phase_trace c [] tr = []"
| "phase_trace c (s # ss) tr =
     (if tr_phase (fst (track c s tr)) \<noteq> tr_phase tr
      then [(tr_phase (fst (track c s tr)), sm_timestamp s)] else [])
       @ phase_trace c ss (fst (track c s tr))"

text \<open>
  Samples every 20 ms (50 Hz): \<open>burst t0 n v\<close> is \<open>n\<close> samples of velocity \<open>v\<close> from time
  \<open>t0\<close> on.  \<open>down_up\<close> rests, descends for 0.2 s, ascends for 0.2 s and rests;
  \<open>up_down\<close> has the two motions in the other order.
\<close>

fun burst :: "rat \<Rightarrow> nat \<Rightarrow> rat \<Rightarrow> sample list" where
  "burst t0 0 v = []"
| "burst t0 (Suc n) v = \<lparr>sm_timestamp = t0, sm_velocity = v\<rparr> # burst (t0 + 1/50) n v"

definition down_up :: "sample list" where
  "down_up = burst 0 3 0 @ burst (6/100) 11 (-1/2) @ burst (28/100) 11 (1/2)
               @ burst (50/100) 10 0"

definition up_down :: "sample list" where
  "up_down = burst 0 3 0 @ burst (6/100) 11 (1/2) @ burst (28/100) 11 (-1/2)
               @ burst (50/100) 10 0"

section \<open>Notions used in the proofs\<close>

text \<open>The calls of the \<^verbatim>\<open>try\<close> block up to and including the write of the set.\<close>

definition persistence_calls :: "db_call set" where
  "persistence_calls =
     {OpCreateWorkout, OpGetWorkoutByDate, OpGetExercisesForWorkout, OpAddExercise, OpAddSet}"

text \<open>
  The invariant of the auto-end timeout: one is pending only while a set with a recorded
  rep is tracked, and its deadline lies ahead, at most \<open>AUTO_END_DELAY\<close> away.
\<close>

definition timer_inv :: "world \<Rightarrow> bool" where
  "timer_inv w =
     (case autoEndTimer (ui w) of
        None \<Rightarrow> True
      | Some t \<Rightarrow> isTracking (ui w) \<and> repDetails (ui w) \<noteq> [] \<and> clock w < t
                  \<and> t \<le> clock w + AUTO_END_DELAY)"

text \<open>
  What holds of the active set after the reps \<open>rs\<close>: the baseline is the mean of the
  first three once there are three, and before that there is neither alert nor warning.
\<close>

definition early :: "rep_record list \<Rightarrow> active_set \<times> fatigue_warning list \<Rightarrow> bool" where
  "early rs res =
     (as_reps (fst res) = rs
      \<and> baselineVelocity (as_fatigue (fst res)) =
          (if length rs < 3 then None else Some (mean (map rr_avgVelocity (take 3 rs))))
      \<and> (length rs < 3 \<longrightarrow> \<not> alertActive (as_fatigue (fst res)) \<and> snd res = []))"

text \<open>
  The numbers of the reps that a sequence of phase changes produces by the rule of
  \<open>enter\<close>, from a given phase, entry time, cycle and rep count.
\<close>

fun replay :: "tracker_config \<Rightarrow> (Phase \<times> rat) list \<Rightarrow> Phase \<Rightarrow> rat \<Rightarrow> phase_event list \<Rightarrow> nat
     \<Rightarrow> nat list" where
  "replay c [] ph t0 es n = []"
| "replay c ((q, t) # rest) ph t0 es n =
     (if q \<noteq> Idle
      then replay c rest q t
             (if ph = Idle then es else es @ [\<lparr>pe_phase = ph, pe_enteredAt = t0, pe_exitedAt = t\<rparr>]) n
      else if complete_cycle c
             (if ph = Idle then es else es @ [\<lparr>pe_phase = ph, pe_enteredAt = t0, pe_exitedAt = t\<rparr>])
      then (n + 1) # replay c rest Idle t [] (n + 1)
      else replay c rest Idle t [] n)"

section \<open>Sample data\<close>

text \<open>
  The lower-casing of the ASCII letters, with which \<^verbatim>\<open>toLowerCase\<close> agrees on texts of
  ASCII characters; it stands for \<open>lc\<close> where the handlers are run on examples.
\<close>

definition ascii_lower :: "js_string \<Rightarrow> js_string" where
  "ascii_lower s = map (\<lambda>u. if 0x41 \<le> u \<and> u \<le> 0x5A then u + 0x20 else u) s"

text \<open>A tracked set of squats with one recorded rep, used to run the handlers.\<close>

definition squat_rep :: rep_detail where
  "squat_rep = \<lparr>rd_repNumber = 1, rd_avgVelocity = 1/2, rd_peakVelocity = 3/4, rd_duration = 2\<rparr>"

definition tracking_view :: view where
  "tracking_view = initial_view\<lparr>exerciseName := utf16 '' Squat'', weight := utf16 ''225'',
      isTracking := True, repCount := 1, repDetails := [squat_rep]\<rparr>"


definition unicode_blank :: js_string where
  "unicode_blank = [0x0020, 0x00A0, 0x2003, 0xFEFF, 0x3000]"

definition idle_world :: "js_string \<Rightarrow> world" where
  "idle_world name =
     \<lparr>ui = initial_view\<lparr>exerciseName := name, weight := utf16 ''225''\<rparr>, store = empty_db,
      sent = [], ws_open = True, clock = 0\<rparr>"

text \<open>A tracked set whose auto-end is due at 5000 ms, 2 ms before the deadline.\<close>

definition due_world :: world where
  "due_world = \<lparr>ui = tracking_view\<lparr>autoEndTimer := Some 5000\<rparr>, store = empty_db, sent = [],
     ws_open = True, clock = 4998\<rparr>"

definition first_rep :: rep_msg where
  "first_rep = \<lparr>rep_number = 1, max_velocity = 750, avg_velocity = 500, duration = 2\<rparr>"

text \<open>
  The set of the specification's example, with average velocities 1.00, 0.95, 0.90, and a
  fourth rep of 0.55, which makes the mean of reps 2 to 4 equal to 0.80.
\<close>

definition three_reps :: "rep_record list" where
  "three_reps = [rep_of 1 1, rep_of 2 (95/100), rep_of 3 (90/100)]"

definition fourth_rep :: rep_record where
  "fourth_rep = rep_of 4 (55/100)"

section \<open>Properties of the store\<close>

lemma find_date_append_self:
  "find (\<lambda>w. w_date w = date) ws = None \<Longrightarrow>
   find (\<lambda>w. w_date w = date) (ws @ [\<lparr>w_id = k, w_date = date, w_createdAt = t\<rparr>])
     = Some \<lparr>w_id = k, w_date = date, w_createdAt = t\<rparr>"
  by (induction ws) (auto split: if_splits)

lemma createWorkout_existing:
  assumes "\<exists>w \<in> set (workouts d). w_date w = date"
  shows "\<exists>w \<in> set (workouts d). w_date w = date \<and> createWorkout date now d = (w_id w, d)"
proof -
  from assms obtain w where w: "find (\<lambda>w. w_date w = date) (workouts d) = Some w"
    by (cases "find (\<lambda>w. w_date w = date) (workouts d)") (auto simp: find_None_iff)
  then have "w \<in> set (workouts d)" "w_date w = date"
    by (auto simp: find_Some_iff)
  moreover from w have "createWorkout date now d = (w_id w, d)"
    by (simp add: createWorkout_def)
  ultimately show ?thesis by blast
qed

lemma createWorkout_twice:
  "createWorkout date t2 (snd (createWorkout date t1 d)) =
     (fst (createWorkout date t1 d), snd (createWorkout date t1 d))"
  by (cases "find (\<lambda>w. w_date w = date) (workouts d)")
     (simp_all add: createWorkout_def find_date_append_self)

text \<open>
  Claim C10.  \<open>createWorkout\<close> is idempotent per date: when a workout with the date exists,
  the call returns the id of an existing workout with that date and leaves every table as
  it was; and for any store, a second call right after the first returns the same id and
  changes nothing more.
\<close>

theorem createWorkout_idempotent:
  "((\<exists>w \<in> set (workouts d). w_date w = date) \<longrightarrow>
      (\<exists>w \<in> set (workouts d). w_date w = date \<and> createWorkout date now d = (w_id w, d)))
   \<and> createWorkout date t2 (snd (createWorkout date t1 d)) =
       (fst (createWorkout date t1 d), snd (createWorkout date t1 d))"
  using createWorkout_existing [of d date now] createWorkout_twice [of date t2 t1 d]
  by blast

theorem createWorkout_idempotent_witness:
  "(\<exists>w \<in> set (workouts (snd (createWorkout ''2025-02-04'' 7 empty_db))). w_date w = ''2025-02-04'')
   \<and> createWorkout ''2025-02-04'' 9 (snd (createWorkout ''2025-02-04'' 7 empty_db))
       = (1, snd (createWorkout ''2025-02-04'' 7 empty_db))
   \<and> length (workouts (snd (createWorkout ''2025-02-04'' 9
         (snd (createWorkout ''2025-02-04'' 7 empty_db))))) = 1"
  using createWorkout_idempotent [of "snd (createWorkout ''2025-02-04'' 7 empty_db)"
      "''2025-02-04''" 9 9 7]
  by (simp add: createWorkout_def empty_db_def)


section \<open>Properties of the message handler\<close>

lemma distinct_append_rep:
  "distinct (map rd_repNumber prev) \<Longrightarrow> distinct (map rd_repNumber (setRepDetails_append m prev))"
  by (auto simp: setRepDetails_append_def list_ex_iff)

lemma dup_unchanged:
  "list_ex (\<lambda>r. rd_repNumber r = rep_number m) (repDetails v) \<Longrightarrow> repDetails (onmessage (RepCompleted m) v) = repDetails v"
  by (simp add: onmessage_def Let_def setRepDetails_append_def)

lemma onmessage_distinct:
  "distinct (map rd_repNumber (repDetails v)) \<Longrightarrow> distinct (map rd_repNumber (repDetails (onmessage msg v)))"
  by (cases msg) (simp_all add: onmessage_def Let_def distinct_append_rep)

lemma handleEndSet_repDetails:
  "repDetails (fst (handleEndSet f lc date now v d)) = [] \<or> repDetails (fst (handleEndSet f lc date now v d)) = repDetails v"
  by (auto simp: handleEndSet_def Let_def split: prod.splits bool.splits)

lemma autoEndEffect_repDetails [simp]: "repDetails (autoEndEffect now b a) = repDetails a"
  by (simp add: autoEndEffect_def)

lemma endSet_distinct:
  "distinct (map rd_repNumber (repDetails (ui w))) \<Longrightarrow> distinct (map rd_repNumber (repDetails (ui (endSet f lc date w))))"
  using handleEndSet_repDetails [of f lc date "clock w" "ui w" "store w"]
  by (auto simp: endSet_def split: prod.splits)

lemma handle_distinct:
  "distinct (map rd_repNumber (repDetails (ui w))) \<Longrightarrow> distinct (map rd_repNumber (repDetails (ui (handle lc date e w))))"
proof (cases e)
  case (Message m) then show "distinct (map rd_repNumber (repDetails (ui w))) \<Longrightarrow> ?thesis" by (simp add: onmessage_distinct)
next
  case ClickStart then show "distinct (map rd_repNumber (repDetails (ui w))) \<Longrightarrow> ?thesis"
    by (auto simp: handleStartSet_def split: prod.splits if_splits)
next
  case (ClickEnd f) then show "distinct (map rd_repNumber (repDetails (ui w))) \<Longrightarrow> ?thesis"
    by (simp add: endSet_distinct)
next
  case (ClickRetry f) then show "distinct (map rd_repNumber (repDetails (ui w))) \<Longrightarrow> ?thesis"
    by (simp add: endSet_distinct)
next
  case (Tick f) then show "distinct (map rd_repNumber (repDetails (ui w))) \<Longrightarrow> ?thesis"
    by (auto simp: Let_def endSet_distinct split: option.splits)
qed simp_all

lemma dispatch_distinct:
  "distinct (map rd_repNumber (repDetails (ui w))) \<Longrightarrow> distinct (map rd_repNumber (repDetails (ui (dispatch lc date e w))))"
  by (simp add: dispatch_def Let_def handle_distinct)

lemma run_distinct:
  "distinct (map rd_repNumber (repDetails (ui w))) \<Longrightarrow> distinct (map rd_repNumber (repDetails (ui (run lc date es w))))"
  unfolding run_def by (induction es arbitrary: w) (simp_all add: dispatch_distinct)


text \<open>
  Claim C9.  The rep list of the view never holds two entries with the same rep number,
  whatever messages, clicks, inputs and clock ticks reach the component from its initial
  state; and a \<^verbatim>\<open>rep_completed\<close> message whose number is already in the list leaves the
  list as it was.
\<close>

theorem repDetails_no_duplicate_numbers:
  "distinct (map rd_repNumber (repDetails (ui (run lc date es (initial_world d)))))
   \<and> (list_ex (\<lambda>r. rd_repNumber r = rep_number m) (repDetails v) \<longrightarrow>
        repDetails (onmessage (RepCompleted m) v) = repDetails v)"
  using run_distinct [of "initial_world d" lc date es] dup_unchanged [of m v]
  by (simp add: initial_world_def initial_view_def)

theorem repDetails_no_duplicate_numbers_witness:
  "list_ex (\<lambda>r. rd_repNumber r = rep_number first_rep) (repDetails tracking_view)
   \<and> repDetails (onmessage (RepCompleted first_rep) tracking_view) = [squat_rep]
   \<and> distinct (map rd_repNumber (repDetails (ui (run ascii_lower ''2025-02-04''
        [Message (RepCompleted first_rep), Message (RepCompleted first_rep)]
        (initial_world empty_db)))))"
  using repDetails_no_duplicate_numbers [of ascii_lower "''2025-02-04''"
      "[Message (RepCompleted first_rep), Message (RepCompleted first_rep)]" empty_db
      first_rep tracking_view]
  by (simp add: tracking_view_def initial_view_def first_rep_def squat_rep_def)

text \<open>
  Claim C8, as the handler has it.  For every \<^verbatim>\<open>rep_completed\<close> message, \<^verbatim>\<open>lastRep\<close>
  is set to the rep number, \<^verbatim>\<open>max_velocity / 1000\<close>, \<^verbatim>\<open>avg_velocity / 1000\<close> and the
  duration as received; the displayed peak is raised to \<^verbatim>\<open>max_velocity / 1000\<close> when
  \<^verbatim>\<open>max_velocity\<close> is not zero; and an entry is appended to the rep list only when
  \<^verbatim>\<open>avg_velocity\<close> is not zero and the rep number is new, holding
  \<^verbatim>\<open>avg_velocity / 1000\<close>, the duration as received, and as peak \<^verbatim>\<open>max_velocity / 1000\<close>
  when \<^verbatim>\<open>max_velocity\<close> is not zero and \<^verbatim>\<open>avg_velocity / 1000\<close> otherwise.
\<close>

theorem rep_completed_conversion:
  "lastRep (onmessage (RepCompleted m) v) =
      Some \<lparr>lr_number = rep_number m, lr_maxVelocity = max_velocity m / 1000,
            lr_avgVelocity = avg_velocity m / 1000, lr_duration = duration m\<rparr>
   \<and> peakVelocity (onmessage (RepCompleted m) v) =
      (if max_velocity m \<noteq> 0 then max (peakVelocity v) (max_velocity m / 1000)
       else peakVelocity v)
   \<and> repDetails (onmessage (RepCompleted m) v) =
      (if avg_velocity m \<noteq> 0 \<and> \<not> list_ex (\<lambda>r. rd_repNumber r = rep_number m) (repDetails v)
       then repDetails v @
              [\<lparr>rd_repNumber = rep_number m, rd_avgVelocity = avg_velocity m / 1000,
                rd_peakVelocity =
                  (if max_velocity m \<noteq> 0 then max_velocity m else avg_velocity m) / 1000,
                rd_duration = duration m\<rparr>]
       else repDetails v)"
  by (simp add: onmessage_def Let_def setRepDetails_append_def js_or_def)

theorem rep_completed_conversion_witness:
  "lastRep (onmessage (RepCompleted first_rep) initial_view) =
      Some \<lparr>lr_number = 1, lr_maxVelocity = 3/4, lr_avgVelocity = 1/2, lr_duration = 2\<rparr>
   \<and> peakVelocity (onmessage (RepCompleted first_rep) initial_view) = 3/4
   \<and> repDetails (onmessage (RepCompleted first_rep) initial_view) =
      [\<lparr>rd_repNumber = 1, rd_avgVelocity = 1/2, rd_peakVelocity = 3/4, rd_duration = 2\<rparr>]"
  using rep_completed_conversion [of first_rep initial_view]
  by (simp add: first_rep_def initial_view_def)

text \<open>
  The claim as stated fails for the stored rep list: a message with \<^verbatim>\<open>max_velocity = 0\<close>
  is stored with peak \<^verbatim>\<open>avg_velocity / 1000\<close>, not \<^verbatim>\<open>max_velocity / 1000\<close>, and a
  message with \<^verbatim>\<open>avg_velocity = 0\<close> is not stored at all.
\<close>

theorem rep_completed_conversion_counterexample:
  "map rd_peakVelocity (repDetails (onmessage
       (RepCompleted \<lparr>rep_number = 1, max_velocity = 0, avg_velocity = 500, duration = 2\<rparr>)
       initial_view)) = [1/2]
   \<and> (0::rat) / 1000 \<noteq> 1/2
   \<and> repDetails (onmessage
       (RepCompleted \<lparr>rep_number = 2, max_velocity = 900, avg_velocity = 0, duration = 2\<rparr>)
       initial_view) = []"
  by (simp add: onmessage_def Let_def setRepDetails_append_def js_or_def initial_view_def)

section \<open>Properties of starting a set\<close>

lemma world_ui_same [simp]: "w\<lparr>ui := ui w\<rparr> = (w::world)"
  by simp

lemma autoEndEffect_same [simp]: "autoEndEffect now v v = v"
  by (simp add: autoEndEffect_def)





text \<open>
  Claim C7, as the handler has it.  A start with an exercise name that is empty or
  consists of white space only (any of the code units that \<^verbatim>\<open>trim\<close> strips) is dropped
  at once and changes nothing: the input is not valid, so the Start button is disabled;
  the handler returns the state as it was and sends nothing; and the click leaves the
  whole component unchanged, the error notice included.
\<close>

theorem blank_exercise_start_is_dropped:
  "trim (exerciseName (ui w)) = [] \<Longrightarrow>
     \<not> isValid (ui w)
     \<and> handleStartSet (ws_open w) (ui w) = (ui w, [])
     \<and> dispatch lc date ClickStart w = w"
  by (simp add: handleStartSet_def dispatch_def Let_def isValid_def)

theorem blank_exercise_start_is_dropped_witness:
  "trim (exerciseName (ui (idle_world unicode_blank))) = []
   \<and> \<not> isValid (ui (idle_world unicode_blank))
   \<and> handleStartSet True (ui (idle_world unicode_blank)) = (ui (idle_world unicode_blank), [])
   \<and> dispatch ascii_lower ''2025-02-04'' ClickStart (idle_world unicode_blank)
       = idle_world unicode_blank
   \<and> trim (exerciseName (ui (idle_world []))) = []
   \<and> dispatch ascii_lower ''2025-02-04'' ClickStart (idle_world []) = idle_world []"
  using blank_exercise_start_is_dropped [of "idle_world unicode_blank" ascii_lower
      "''2025-02-04''"]
    blank_exercise_start_is_dropped [of "idle_world []" ascii_lower "''2025-02-04''"]
  by (simp add: idle_world_def unicode_blank_def initial_view_def trim_def is_space_def
      utf16_def)

text \<open>
  The claim as stated fails: the blank start produces no rejection reason.  The handler
  returns without setting the error notice and without sending anything.
\<close>

theorem blank_exercise_start_is_dropped_counterexample:
  "error (fst (handleStartSet True
       (initial_view\<lparr>exerciseName := utf16 ''  '', weight := utf16 ''225''\<rparr>))) = None
   \<and> snd (handleStartSet True
       (initial_view\<lparr>exerciseName := utf16 ''  '', weight := utf16 ''225''\<rparr>)) = []
   \<and> error (fst (handleStartSet True (ui (idle_world unicode_blank)))) = None
   \<and> snd (handleStartSet True (ui (idle_world unicode_blank))) = []"
  by (simp add: handleStartSet_def trim_def is_space_def utf16_def initial_view_def
      idle_world_def unicode_blank_def)

section \<open>Properties of ending a set\<close>

lemma getWorkoutByDate_created:
  "getWorkoutByDate date (snd (createWorkout date now d)) \<noteq> None"
  by (cases "find (\<lambda>w. w_date w = date) (workouts d)")
     (simp_all add: getWorkoutByDate_def createWorkout_def find_date_append_self)

lemma createWorkout_tables:
  "sets (snd (createWorkout date now d)) = sets d"
  "exercises (snd (createWorkout date now d)) = exercises d"
  "length (workouts (snd (createWorkout date now d))) \<le> length (workouts d) + 1"
  by (simp_all add: createWorkout_def split: option.splits)

lemma addExercise_tables:
  "sets (snd (addExercise wid name d)) = sets d"
  "workouts (snd (addExercise wid name d)) = workouts d"
  "length (exercises (snd (addExercise wid name d))) = length (exercises d) + 1"
  by (simp_all add: addExercise_def Let_def)

lemma storeSet_failed:
  "f \<in> persistence_calls \<Longrightarrow> storeSet (Some f) ex wt reps av rds now d = (False, d') \<Longrightarrow> d' = d"
  by (auto simp: storeSet_def persistence_calls_def Let_def split: if_splits)

lemma storeSet_ok:
  "storeSet None ex wt reps av rds now d =
     (True, snd (addSet ex wt reps None av (Some rds) now d))"
  by (simp add: storeSet_def Let_def)

lemma addSet_tables:
  "workouts (snd (addSet ex wt reps rpe av rds now d)) = workouts d"
  "exercises (snd (addSet ex wt reps rpe av rds now d)) = exercises d"
  "\<exists>row. sets (snd (addSet ex wt reps rpe av rds now d)) = sets d @ [row]
      \<and> s_repDetails row = rds \<and> s_reps row = reps \<and> s_weight row = wt
      \<and> s_avgVelocity row = truthy_opt av \<and> s_exerciseId row = ex"
  by (simp_all add: addSet_def Let_def)


lemma createWorkout_found:
  "getWorkoutByDate date d = Some w \<Longrightarrow> createWorkout date now d = (w_id w, d)"
  by (simp add: getWorkoutByDate_def createWorkout_def)

lemma dropWhile_fixed:
  "xs = [] \<or> \<not> P (hd xs) \<Longrightarrow> dropWhile P xs = xs"
  by (cases xs) auto

lemma hd_rev_dropWhile_rev:
  "rev (dropWhile P (rev xs)) \<noteq> [] \<Longrightarrow> hd (rev (dropWhile P (rev xs))) = hd xs"
proof (induction xs rule: rev_induct)
  case Nil
  then show ?case by simp
next
  case (snoc x xs)
  show ?case
  proof (cases "P x")
    case True
    with snoc show ?thesis by (cases xs) auto
  next
    case False
    then show ?thesis by (cases xs) auto
  qed
qed

lemma rev_dropWhile_rev_nonempty: "rev (dropWhile P (rev xs)) \<noteq> [] \<Longrightarrow> xs \<noteq> []"
  by auto

lemma hd_dropWhile_not: "dropWhile P xs \<noteq> [] \<Longrightarrow> \<not> P (hd (dropWhile P xs))"
  by (induction xs) auto

lemma trim_idem: "trim (trim s) = trim s"
proof -
  let ?t = "dropWhile is_space s"
  let ?u = "rev (dropWhile is_space (rev ?t))"
  have "?u = [] \<or> \<not> is_space (hd ?u)"
  proof (cases "?u = []")
    case False
    then have "hd ?u = hd ?t" by (rule hd_rev_dropWhile_rev)
    moreover from False have "?t \<noteq> []" by (rule rev_dropWhile_rev_nonempty)
    ultimately show ?thesis using hd_dropWhile_not [of is_space s] by simp
  qed simp
  then have "dropWhile is_space ?u = ?u" by (rule dropWhile_fixed)
  then show ?thesis by (simp add: trim_def)
qed

lemma logSet_ok:
  "\<exists>d2 row. logSet None lc date now ex wt reps av rds d = (True, d2)
     \<and> sets d2 = sets d @ [row]
     \<and> s_repDetails row = Some rds \<and> s_reps row = reps \<and> s_weight row = wt
     \<and> s_avgVelocity row = truthy_opt av
     \<and> length (workouts d2) \<le> length (workouts d) + 1
     \<and> length (exercises d2) \<le> length (exercises d) + 1
     \<and> (getWorkoutByDate date d \<noteq> None \<longrightarrow> workouts d2 = workouts d)
     \<and> (\<forall>w. getWorkoutByDate date d = Some w \<and>
             find (\<lambda>e. lc (e_name e) = lc ex)
               (getExercisesForWorkout (w_id w) d) \<noteq> None \<longrightarrow> exercises d2 = exercises d)"
proof -
  let ?d1 = "snd (createWorkout date now d)"
  obtain w where w: "getWorkoutByDate date ?d1 = Some w"
    using getWorkoutByDate_created [of date now d] by auto
  have keep: "getWorkoutByDate date d \<noteq> None \<longrightarrow> workouts ?d1 = workouts d"
    by (auto simp: createWorkout_found)
  have same: "\<And>w'. getWorkoutByDate date d = Some w' \<Longrightarrow> ?d1 = d \<and> w = w'"
    using w by (auto simp: createWorkout_found)
  show ?thesis
  proof (cases "find (\<lambda>e. lc (e_name e) = lc ex) (getExercisesForWorkout (w_id w) ?d1)")
    case None
    obtain exId d2 where a: "addExercise (w_id w) ex ?d1 = (exId, d2)" by (cases "addExercise (w_id w) ex ?d1")
    then have d2: "d2 = snd (addExercise (w_id w) ex ?d1)" by simp
    have "logSet None lc date now ex wt reps av rds d = (True, snd (addSet exId wt reps None av (Some rds) now d2))"
      using w None a by (simp add: logSet_def Let_def storeSet_ok)
    moreover obtain row where "sets (snd (addSet exId wt reps None av (Some rds) now d2)) = sets d2 @ [row]"
      "s_repDetails row = Some rds" "s_reps row = reps" "s_weight row = wt" "s_avgVelocity row = truthy_opt av"
      using addSet_tables(3) [of exId wt reps None av "Some rds" now d2] by blast
    ultimately show ?thesis
      using keep same None createWorkout_tables [of date now d] addExercise_tables [of "w_id w" ex ?d1]
      by (auto simp: d2 addSet_tables)
  next
    case (Some e)
    have "logSet None lc date now ex wt reps av rds d = (True, snd (addSet (e_id e) wt reps None av (Some rds) now ?d1))"
      using w Some by (simp add: logSet_def Let_def storeSet_ok)
    moreover obtain row where "sets (snd (addSet (e_id e) wt reps None av (Some rds) now ?d1)) = sets ?d1 @ [row]"
      "s_repDetails row = Some rds" "s_reps row = reps" "s_weight row = wt" "s_avgVelocity row = truthy_opt av"
      using addSet_tables(3) [of "e_id e" wt reps None av "Some rds" now ?d1] by blast
    ultimately show ?thesis
      using keep createWorkout_tables [of date now d]
      by (auto simp: addSet_tables)
  qed
qed

lemma logSet_failed:
  assumes "f \<in> persistence_calls" "logSet (Some f) lc date now ex wt reps av rds d = (False, d1)"
  shows "d1 = d \<or> d1 = snd (createWorkout date now d)
         \<or> (\<exists>w. getWorkoutByDate date (snd (createWorkout date now d)) = Some w
                \<and> d1 = snd (addExercise (w_id w) ex (snd (createWorkout date now d))))"
  using assms
  by (auto simp: logSet_def Let_def persistence_calls_def
           split: if_splits option.splits prod.splits dest!: storeSet_failed [unfolded persistence_calls_def, rotated])

lemma addExercise_found:
  assumes "trim ex = ex"
  shows "find (\<lambda>e. lc (e_name e) = lc ex)
           (getExercisesForWorkout wid (snd (addExercise wid ex d))) \<noteq> None"
proof -
  let ?r = "\<lparr>e_id = exercises_key d, e_workoutId = wid, e_name = trim ex,
             e_order = length (filter (\<lambda>e. e_workoutId e = wid) (exercises d))\<rparr>"
  have "?r \<in> set (getExercisesForWorkout wid (snd (addExercise wid ex d)))"
    by (simp add: getExercisesForWorkout_def addExercise_def Let_def)
  moreover have "lc (e_name ?r) = lc ex" using assms by simp
  ultimately show ?thesis by (auto simp: find_None_iff)
qed

lemma getWorkoutByDate_addExercise [simp]:
  "getWorkoutByDate date (snd (addExercise wid ex d)) = getWorkoutByDate date d"
  by (simp add: getWorkoutByDate_def addExercise_def Let_def)

lemma retry_store:
  assumes f: "f \<in> persistence_calls"
      and fail: "logSet (Some f) lc date t1 ex wt reps av rds d = (False, d1)"
      and ex: "trim ex = ex"
  shows "\<exists>d2 row. logSet None lc date t2 ex wt reps av rds d1 = (True, d2)
     \<and> sets d1 = sets d \<and> sets d2 = sets d @ [row]
     \<and> s_repDetails row = Some rds \<and> s_reps row = reps \<and> s_weight row = wt
     \<and> s_avgVelocity row = truthy_opt av
     \<and> length (workouts d2) \<le> length (workouts d) + 1
     \<and> length (exercises d2) \<le> length (exercises d) + 1"
proof -
  let ?dc = "snd (createWorkout date t1 d)"
  from logSet_failed [OF f fail]
  consider (a) "d1 = d" | (b) "d1 = ?dc"
    | (c) w where "getWorkoutByDate date ?dc = Some w" "d1 = snd (addExercise (w_id w) ex ?dc)"
    by blast
  then show ?thesis
  proof cases
    case a
    with logSet_ok [of lc date t2 ex wt reps av rds d] show ?thesis by auto
  next
    case b
    with logSet_ok [of lc date t2 ex wt reps av rds ?dc] getWorkoutByDate_created [of date t1 d]
      createWorkout_tables [of date t1 d]
    show ?thesis by auto
  next
    case c
    with logSet_ok [of lc date t2 ex wt reps av rds d1] addExercise_found [OF ex, of lc "w_id w" ?dc]
      createWorkout_tables [of date t1 d] addExercise_tables [of "w_id w" ex ?dc]
    show ?thesis by auto
  qed
qed

lemma handleEndSet_failed_view:
  assumes "handleEndSet fault lc date now v d = (v1, d1)" "isTracking v1"
  shows "isTracking v \<and> actualReps v \<noteq> 0 \<and> v1 = v\<lparr>autoEndTimer := None, error := Some retry_notice\<rparr>
         \<and> logSet fault lc date now (trim (exerciseName v)) (weight v) (actualReps v)
               (meanVelocity (repDetails v)) (repDetails v) d = (False, d1)"
  using assms
  by (auto simp: handleEndSet_def Let_def split: if_splits prod.splits bool.splits)

lemma actualReps_upd [simp]:
  "actualReps (v\<lparr>error := e\<rparr>) = actualReps v"
  "actualReps (v\<lparr>autoEndTimer := t\<rparr>) = actualReps v"
  by (simp_all add: actualReps_def)


text \<open>
  When a call of the save up to and including the write of the set rejects and the set
  is therefore still tracked, the view is as before except that the pending auto-end is
  cancelled and the notice \<^verbatim>\<open>Failed to log set. Tap to retry.\<close> is shown; no set row
  was written, and a retry whose calls all succeed writes exactly one set row, carrying
  the kept rep list, and at most one workout and one exercise over both attempts.
\<close>

lemma early_failure_retry_writes_once:
  assumes f: "f \<in> {OpCreateWorkout, OpGetWorkoutByDate, OpGetExercisesForWorkout,
                     OpAddExercise, OpAddSet}"
      and first: "handleEndSet (Some f) lc date t1 v d = (v1, d1)"
      and failed: "isTracking v1"
  shows "v1 = v\<lparr>autoEndTimer := None, error := Some retry_notice\<rparr>
       \<and> sets d1 = sets d
       \<and> (\<exists>v2 d2 row. handleEndSet None lc date t2 (v1\<lparr>error := None\<rparr>) d1 = (v2, d2)
             \<and> \<not> isTracking v2 \<and> repDetails v2 = [] \<and> repCount v2 = 0 \<and> error v2 = None
             \<and> sets d2 = sets d @ [row]
             \<and> s_repDetails row = Some (repDetails v) \<and> s_reps row = actualReps v
             \<and> s_weight row = weight v
             \<and> s_avgVelocity row = truthy_opt (meanVelocity (repDetails v))
             \<and> length (workouts d2) \<le> length (workouts d) + 1
             \<and> length (exercises d2) \<le> length (exercises d) + 1)"
proof -
  from f have f': "f \<in> persistence_calls" by (simp add: persistence_calls_def)
  from handleEndSet_failed_view [OF first failed]
  have tr: "isTracking v" and ar: "actualReps v \<noteq> 0"
    and v1: "v1 = v\<lparr>autoEndTimer := None, error := Some retry_notice\<rparr>"
    and ls: "logSet (Some f) lc date t1 (trim (exerciseName v)) (weight v) (actualReps v)
               (meanVelocity (repDetails v)) (repDetails v) d = (False, d1)"
    by auto
  from retry_store [OF f' ls trim_idem, of t2]
  obtain d2 row where r: "logSet None lc date t2 (trim (exerciseName v)) (weight v) (actualReps v)
               (meanVelocity (repDetails v)) (repDetails v) d1 = (True, d2)"
     "sets d1 = sets d" "sets d2 = sets d @ [row]"
     "s_repDetails row = Some (repDetails v)" "s_reps row = actualReps v" "s_weight row = weight v"
     "s_avgVelocity row = truthy_opt (meanVelocity (repDetails v))"
     "length (workouts d2) \<le> length (workouts d) + 1"
     "length (exercises d2) \<le> length (exercises d) + 1"
    by blast
  have "handleEndSet None lc date t2 (v1\<lparr>error := None\<rparr>) d1 =
          (v\<lparr>autoEndTimer := None, error := None, isTracking := False, repCount := 0,
             repDetails := [], lastRep := None, peakVelocity := 0\<rparr>, d2)"
    using tr ar r(1) by (simp add: handleEndSet_def Let_def v1)
  with r v1 show ?thesis by simp
qed

text \<open>
  The \<^verbatim>\<open>try\<close> block also covers the calls after the write.  A run in which one of
  them rejects stores what a run without a fault stores, and reports a failure.
\<close>

lemma logSet_late:
  assumes "f \<in> {OpGetAllExerciseNames, OpLoadSessionHistory, OpOnSetLogged}"
  shows "logSet (Some f) lc date now ex wt reps av rds d =
           (False, snd (logSet None lc date now ex wt reps av rds d))"
  using assms
  by (auto simp: logSet_def storeSet_def Let_def split: option.splits prod.splits)

text \<open>
  Claim C6 fails on the code when the call that rejects comes after the write of the set
  (\<^verbatim>\<open>getAllExerciseNames\<close>, \<^verbatim>\<open>loadSessionHistory\<close> or \<^verbatim>\<open>onSetLogged\<close>).  For every
  tracked set with reps: the set row, carrying the rep list, is already stored; the
  view keeps its tracking state and shows the same notice
  \<^verbatim>\<open>Failed to log set. Tap to retry.\<close>; and the retry, all of whose calls succeed, stores
  a second row carrying the same rep list: the set is duplicated.
\<close>

theorem late_failure_retry_duplicates:
  assumes f: "f \<in> {OpGetAllExerciseNames, OpLoadSessionHistory, OpOnSetLogged}"
      and tr: "isTracking v"
      and ar: "actualReps v \<noteq> 0"
  shows "\<exists>d1 row1 v2 d2 row2.
           handleEndSet (Some f) lc date t1 v d =
             (v\<lparr>autoEndTimer := None, error := Some retry_notice\<rparr>, d1)
           \<and> sets d1 = sets d @ [row1]
           \<and> s_repDetails row1 = Some (repDetails v) \<and> s_reps row1 = actualReps v
           \<and> handleEndSet None lc date t2 (v\<lparr>autoEndTimer := None, error := None\<rparr>) d1
               = (v2, d2)
           \<and> \<not> isTracking v2 \<and> repDetails v2 = []
           \<and> sets d2 = sets d @ [row1, row2]
           \<and> s_repDetails row2 = Some (repDetails v) \<and> s_reps row2 = actualReps v"
proof -
  let ?ex = "trim (exerciseName v)"
  let ?av = "meanVelocity (repDetails v)"
  from logSet_ok [of lc date t1 ?ex "weight v" "actualReps v" ?av "repDetails v" d]
  obtain d1 row1 where a:
    "logSet None lc date t1 ?ex (weight v) (actualReps v) ?av (repDetails v) d = (True, d1)"
    "sets d1 = sets d @ [row1]" "s_repDetails row1 = Some (repDetails v)"
    "s_reps row1 = actualReps v"
    by blast
  from logSet_ok [of lc date t2 ?ex "weight v" "actualReps v" ?av "repDetails v" d1]
  obtain d2 row2 where b:
    "logSet None lc date t2 ?ex (weight v) (actualReps v) ?av (repDetails v) d1 = (True, d2)"
    "sets d2 = sets d1 @ [row2]" "s_repDetails row2 = Some (repDetails v)"
    "s_reps row2 = actualReps v"
    by blast
  have late: "logSet (Some f) lc date t1 ?ex (weight v) (actualReps v) ?av (repDetails v) d
                = (False, d1)"
    using logSet_late [OF f, of lc date t1 ?ex "weight v" "actualReps v" ?av "repDetails v" d]
    by (simp add: a(1))
  have first: "handleEndSet (Some f) lc date t1 v d =
                 (v\<lparr>autoEndTimer := None, error := Some retry_notice\<rparr>, d1)"
    using tr ar late by (simp add: handleEndSet_def Let_def)
  have again: "handleEndSet None lc date t2 (v\<lparr>autoEndTimer := None, error := None\<rparr>) d1 =
                 (v\<lparr>autoEndTimer := None, error := None, isTracking := False, repCount := 0,
                    repDetails := [], lastRep := None, peakVelocity := 0\<rparr>, d2)"
    using tr ar b(1) by (simp add: handleEndSet_def Let_def)
  show ?thesis
    using first again a b by simp
qed

theorem late_failure_retry_duplicates_witness:
  "isTracking tracking_view \<and> actualReps tracking_view = 1
   \<and> isTracking (fst (handleEndSet (Some OpLoadSessionHistory) ascii_lower ''2025-02-04'' 10
       tracking_view empty_db))
   \<and> error (fst (handleEndSet (Some OpLoadSessionHistory) ascii_lower ''2025-02-04'' 10
       tracking_view empty_db)) = Some retry_notice
   \<and> map s_repDetails (sets (snd (handleEndSet (Some OpLoadSessionHistory) ascii_lower
       ''2025-02-04'' 10 tracking_view empty_db))) = [Some [squat_rep]]
   \<and> map s_repDetails (sets (snd (handleEndSet None ascii_lower ''2025-02-04'' 20
       ((fst (handleEndSet (Some OpLoadSessionHistory) ascii_lower ''2025-02-04'' 10
            tracking_view empty_db))\<lparr>error := None\<rparr>)
       (snd (handleEndSet (Some OpLoadSessionHistory) ascii_lower ''2025-02-04'' 10
            tracking_view empty_db))))) = [Some [squat_rep], Some [squat_rep]]"
  using late_failure_retry_duplicates [of OpLoadSessionHistory tracking_view ascii_lower
      "''2025-02-04''" 10 empty_db 20]
  by (simp add: handleEndSet_def Let_def tracking_view_def initial_view_def empty_db_def
      logSet_def createWorkout_def getWorkoutByDate_def getExercisesForWorkout_def
      addExercise_def addSet_def storeSet_def actualReps_def trim_def is_space_def utf16_def
      ascii_lower_def)

section \<open>Properties of the auto-end timeout\<close>

lemma handleEndSet_timer [simp]:
  "autoEndTimer (fst (handleEndSet f lc date now v d)) = None"
  by (simp add: handleEndSet_def Let_def split: prod.splits bool.splits)

lemma autoEndEffect_timer_None:
  "autoEndTimer a = None \<Longrightarrow>
     autoEndTimer (autoEndEffect now b a) = None \<or>
     (isTracking a \<and> repDetails a \<noteq> [] \<and> autoEndTimer (autoEndEffect now b a) = Some (now + AUTO_END_DELAY))"
  by (auto simp: autoEndEffect_def)

lemma autoEndEffect_isTracking [simp]: "isTracking (autoEndEffect now b a) = isTracking a"
  by (simp add: autoEndEffect_def)

lemma endSet_effect:
  assumes "isTracking (ui w)" "repDetails (ui w) \<noteq> []"
  shows "autoEndEffect now (ui w) (ui (endSet f lc date w)) = ui (endSet f lc date w)"
  using assms
  by (auto simp: endSet_def handleEndSet_def Let_def autoEndEffect_def actualReps_def
           split: prod.splits bool.splits)

lemma endSet_timer [simp]: "autoEndTimer (ui (endSet f lc date w)) = None"
proof (cases "handleEndSet f lc date (clock w) (ui w) (store w)")
  case (Pair v d)
  with handleEndSet_timer [of f lc date "clock w" "ui w" "store w"] show ?thesis
    by (simp add: endSet_def)
qed

lemma endSet_clock [simp]: "clock (endSet f lc date w) = clock w"
  by (simp add: endSet_def split: prod.splits)

lemma effect_inv:
  assumes "autoEndTimer (ui w') = None"
  shows "timer_inv (w'\<lparr>ui := autoEndEffect (clock w') b (ui w')\<rparr>)"
  using assms by (auto simp: timer_inv_def autoEndEffect_def AUTO_END_DELAY_def)

lemma onmessage_timer [simp]: "autoEndTimer (onmessage m v) = autoEndTimer v"
  by (cases m) (simp_all add: onmessage_def Let_def)

lemma onmessage_isTracking [simp]: "isTracking (onmessage m v) = isTracking v"
  by (cases m) (simp_all add: onmessage_def Let_def)

lemma onmessage_length: "length (repDetails v) \<le> length (repDetails (onmessage m v))"
  by (cases m) (simp_all add: onmessage_def Let_def setRepDetails_append_def)

lemma dispatch_inv: "timer_inv w \<Longrightarrow> timer_inv (dispatch lc date e w)"
proof (cases e)
  case (Message m)
  assume "timer_inv w"
  then show ?thesis using Message onmessage_length [of "ui w" m]
    by (auto simp: dispatch_def Let_def timer_inv_def autoEndEffect_def AUTO_END_DELAY_def split: option.splits)
next
  case ClickStart
  assume "timer_inv w"
  then show ?thesis using ClickStart
    by (auto simp: dispatch_def Let_def timer_inv_def autoEndEffect_def handleStartSet_def split: option.splits prod.splits if_splits)
next
  case (ClickEnd f)
  assume "timer_inv w"
  then show ?thesis using ClickEnd effect_inv [of "endSet f lc date w" "ui w"]
    by (auto simp: dispatch_def Let_def)
next
  case (ClickRetry f)
  assume "timer_inv w"
  then show ?thesis using ClickRetry effect_inv [of "endSet f lc date (w\<lparr>ui := (ui w)\<lparr>error := None\<rparr>\<rparr>)" "ui w"]
    by (auto simp: dispatch_def Let_def)
next
  case (Tick f)
  assume "timer_inv w"
  then show ?thesis using Tick
      effect_inv [of "endSet f lc date (w\<lparr>clock := clock w + 1, ui := (ui w)\<lparr>autoEndTimer := None\<rparr>\<rparr>)" "ui w"]
    by (auto simp: dispatch_def Let_def timer_inv_def split: option.splits)
qed (auto simp: dispatch_def Let_def timer_inv_def autoEndEffect_def split: option.splits)

lemma run_inv: "timer_inv w \<Longrightarrow> timer_inv (run lc date es w)"
  unfolding run_def by (induction es arbitrary: w) (simp_all add: dispatch_inv)

lemma initial_inv: "timer_inv (initial_world d)"
  by (simp add: timer_inv_def initial_world_def initial_view_def)

lemma tick_idle:
  "autoEndTimer (ui w) = None \<Longrightarrow> dispatch lc date (Tick f) w = w\<lparr>clock := clock w + 1\<rparr>"
  by (simp add: dispatch_def Let_def)

lemma tick_early:
  "autoEndTimer (ui w) = Some t \<Longrightarrow> clock w + 1 < t \<Longrightarrow> dispatch lc date (Tick f) w = w\<lparr>clock := clock w + 1\<rparr>"
  by (simp add: dispatch_def Let_def)

lemma run_Cons [simp]: "run lc date (e # es) w = run lc date es (dispatch lc date e w)"
  by (simp add: run_def)

lemma run_Nil [simp]: "run lc date [] w = w"
  by (simp add: run_def)

lemma ticks_idle:
  "autoEndTimer (ui w) = None \<Longrightarrow> run lc date (replicate n (Tick f)) w = w\<lparr>clock := clock w + n\<rparr>"
  by (induction n arbitrary: w) (simp_all add: tick_idle)

lemma ticks_early:
  "autoEndTimer (ui w) = Some t \<Longrightarrow> clock w + n < t \<Longrightarrow>
     run lc date (replicate n (Tick f)) w = w\<lparr>clock := clock w + n\<rparr>"
  by (induction n arbitrary: w) (simp_all add: tick_early)

lemma tick_fire:
  assumes "isTracking (ui w)" "repDetails (ui w) \<noteq> []" "autoEndTimer (ui w) = Some t" "t \<le> clock w + 1"
  shows "dispatch lc date (Tick f) w =
           endSet f lc date (w\<lparr>clock := clock w + 1, ui := (ui w)\<lparr>autoEndTimer := None\<rparr>\<rparr>)"
proof -
  let ?w2 = "w\<lparr>clock := clock w + 1, ui := (ui w)\<lparr>autoEndTimer := None\<rparr>\<rparr>"
  have h: "handle lc date (Tick f) w = endSet f lc date ?w2"
    using assms by (simp add: Let_def)
  have eff: "autoEndEffect (clock (endSet f lc date ?w2)) (ui ?w2) (ui (endSet f lc date ?w2)) = ui (endSet f lc date ?w2)"
    using assms by (intro endSet_effect) simp_all
  have eq: "autoEndEffect n (ui w) x = autoEndEffect n (ui ?w2) x" for n x
    by (simp add: autoEndEffect_def)
  have "dispatch lc date (Tick f) w =
          (endSet f lc date ?w2)\<lparr>ui := autoEndEffect (clock (endSet f lc date ?w2)) (ui w) (ui (endSet f lc date ?w2))\<rparr>"
    by (simp only: dispatch_def Let_def h)
  also have "\<dots> = (endSet f lc date ?w2)\<lparr>ui := ui (endSet f lc date ?w2)\<rparr>"
    by (simp only: eq eff)
  finally show ?thesis by simp
qed

lemma run_append: "run lc date (es @ fs) w = run lc date fs (run lc date es w)"
  by (simp add: run_def)

lemma auto_end_run:
  assumes "isTracking (ui w)" "repDetails (ui w) \<noteq> []" "autoEndTimer (ui w) = Some t" "clock w < t"
  shows "run lc date (replicate (t - clock w + n) (Tick f)) w =
           (endSet f lc date (w\<lparr>clock := t, ui := (ui w)\<lparr>autoEndTimer := None\<rparr>\<rparr>))\<lparr>clock := t + n\<rparr>"
proof -
  let ?k = "t - clock w - 1"
  let ?w1 = "w\<lparr>clock := clock w + ?k\<rparr>"
  have e: "t - clock w + n = ?k + Suc n"
    using assms(4) by arith
  have split: "replicate (t - clock w + n) (Tick f) = replicate ?k (Tick f) @ Tick f # replicate n (Tick f)"
    unfolding e by (simp add: replicate_add replicate_append_same)
  have a: "run lc date (replicate ?k (Tick f)) w = ?w1"
    using assms by (intro ticks_early [where t = t]) simp_all
  have b: "dispatch lc date (Tick f) ?w1 = endSet f lc date (?w1\<lparr>clock := clock ?w1 + 1, ui := (ui ?w1)\<lparr>autoEndTimer := None\<rparr>\<rparr>)"
    using assms by (intro tick_fire [where t = t]) simp_all
  have c: "?w1\<lparr>clock := clock ?w1 + 1, ui := (ui ?w1)\<lparr>autoEndTimer := None\<rparr>\<rparr> = w\<lparr>clock := t, ui := (ui w)\<lparr>autoEndTimer := None\<rparr>\<rparr>"
    using assms(4) by simp
  let ?W = "w\<lparr>clock := t, ui := (ui w)\<lparr>autoEndTimer := None\<rparr>\<rparr>"
  have "run lc date (replicate (t - clock w + n) (Tick f)) w =
          run lc date (replicate n (Tick f)) (dispatch lc date (Tick f) (run lc date (replicate ?k (Tick f)) w))"
    by (simp only: split run_append run_Cons)
  also have "\<dots> = run lc date (replicate n (Tick f)) (endSet f lc date ?W)"
    by (simp only: a b c)
  also have "\<dots> = (endSet f lc date ?W)\<lparr>clock := clock (endSet f lc date ?W) + n\<rparr>"
    by (rule ticks_idle) simp
  finally show ?thesis by simp
qed

lemma rep_restarts_timer:
  assumes "isTracking (ui w)" "avg_velocity m \<noteq> 0"
    "\<not> list_ex (\<lambda>r. rd_repNumber r = rep_number m) (repDetails (ui w))"
  shows "autoEndTimer (ui (dispatch lc date (Message (RepCompleted m)) w)) = Some (clock w + AUTO_END_DELAY)"
  using assms
  by (simp add: dispatch_def Let_def onmessage_def setRepDetails_append_def autoEndEffect_def)


lemma frame_keeps_timer:
  "autoEndTimer (ui (dispatch lc date (Message (Frame fm)) w)) = autoEndTimer (ui w)"
  by (simp add: dispatch_def Let_def onmessage_def autoEndEffect_def)

lemma endSet_effect_timer:
  assumes "isTracking b = isTracking (ui w)" "repDetails b = repDetails (ui w)"
  shows "autoEndTimer (autoEndEffect now b (ui (endSet f lc date w))) = None"
  using assms
  by (auto simp: endSet_def handleEndSet_def Let_def autoEndEffect_def
           split: prod.splits bool.splits)

lemma click_end_timer:
  "isTracking (ui w) \<Longrightarrow> autoEndTimer (ui (dispatch lc date (ClickEnd f) w)) = None"
  by (simp add: dispatch_def Let_def endSet_effect_timer)

lemma click_retry_timer:
  "error (ui w) \<noteq> None \<Longrightarrow> autoEndTimer (ui (dispatch lc date (ClickRetry f) w)) = None"
  by (simp add: dispatch_def Let_def endSet_effect_timer)

text \<open>
  Claim C5, as the view has it.  In every state the component reaches, an auto-end
  timeout is pending only while a set with at least one recorded rep is tracked, and
  its deadline is ahead, at most \<open>AUTO_END_DELAY\<close> (5000 ms) away.  A newly appended rep
  of a tracked set restarts the wait: the deadline becomes the present time plus
  \<open>AUTO_END_DELAY\<close>; a frame message, which carries the phase, leaves the deadline as it
  is.  When nothing else happens up to the deadline \<open>t\<close>, and for any \<open>n\<close> further ms,
  \<^verbatim>\<open>handleEndSet\<close> has run exactly once, at \<open>t\<close>, whether its save succeeded or failed.
  After an End click on a tracked set, and after a click on the retry notice, no timeout
  is pending either.  While no timeout is pending, the passing of time changes nothing
  but the clock: a tracked set without a recorded rep is never auto-ended, and a set
  whose save failed is not auto-ended unless a further rep is appended.
\<close>

theorem auto_end_fires_once:
  "(\<forall>t. autoEndTimer (ui (run lc date es (initial_world d))) = Some t \<longrightarrow>
        isTracking (ui (run lc date es (initial_world d)))
        \<and> repDetails (ui (run lc date es (initial_world d))) \<noteq> []
        \<and> clock (run lc date es (initial_world d)) < t
        \<and> t \<le> clock (run lc date es (initial_world d)) + AUTO_END_DELAY)
   \<and> (isTracking (ui w) \<and> avg_velocity m \<noteq> 0
        \<and> \<not> list_ex (\<lambda>r. rd_repNumber r = rep_number m) (repDetails (ui w)) \<longrightarrow>
        autoEndTimer (ui (dispatch lc date (Message (RepCompleted m)) w))
          = Some (clock w + AUTO_END_DELAY))
   \<and> autoEndTimer (ui (dispatch lc date (Message (Frame fm)) w)) = autoEndTimer (ui w)
   \<and> (isTracking (ui w) \<and> repDetails (ui w) \<noteq> [] \<and> autoEndTimer (ui w) = Some t
        \<and> clock w < t \<longrightarrow>
        run lc date (replicate (t - clock w + n) (Tick f)) w =
          (endSet f lc date (w\<lparr>clock := t, ui := (ui w)\<lparr>autoEndTimer := None\<rparr>\<rparr>))
            \<lparr>clock := t + n\<rparr>
        \<and> autoEndTimer (ui (run lc date (replicate (t - clock w + n) (Tick f)) w)) = None)
   \<and> (isTracking (ui w) \<longrightarrow> autoEndTimer (ui (dispatch lc date (ClickEnd f) w)) = None)
   \<and> (error (ui w) \<noteq> None \<longrightarrow>
        autoEndTimer (ui (dispatch lc date (ClickRetry f) w)) = None)
   \<and> (autoEndTimer (ui w) = None \<longrightarrow>
        run lc date (replicate n (Tick f)) w = w\<lparr>clock := clock w + n\<rparr>)"
proof -
  have "timer_inv (run lc date es (initial_world d))"
    by (rule run_inv) (rule initial_inv)
  then have inv: "\<forall>t. autoEndTimer (ui (run lc date es (initial_world d))) = Some t \<longrightarrow>
        isTracking (ui (run lc date es (initial_world d)))
        \<and> repDetails (ui (run lc date es (initial_world d))) \<noteq> []
        \<and> clock (run lc date es (initial_world d)) < t
        \<and> t \<le> clock (run lc date es (initial_world d)) + AUTO_END_DELAY"
    by (simp add: timer_inv_def split: option.splits)
  have fire: "isTracking (ui w) \<and> repDetails (ui w) \<noteq> [] \<and> autoEndTimer (ui w) = Some t
        \<and> clock w < t \<longrightarrow>
        run lc date (replicate (t - clock w + n) (Tick f)) w =
          (endSet f lc date (w\<lparr>clock := t, ui := (ui w)\<lparr>autoEndTimer := None\<rparr>\<rparr>))
            \<lparr>clock := t + n\<rparr>
        \<and> autoEndTimer (ui (run lc date (replicate (t - clock w + n) (Tick f)) w)) = None"
    using auto_end_run [of w t lc date n f] by simp
  show ?thesis
    using inv fire rep_restarts_timer [of w m lc date] ticks_idle [of w lc date n f]
      frame_keeps_timer [of lc date fm w] click_end_timer [of w lc date f]
      click_retry_timer [of w lc date f]
    by blast
qed

theorem auto_end_fires_once_witness:
  "autoEndTimer (ui (run ascii_lower ''2025-02-04''
       [TypeExercise (utf16 ''Squat''), TypeWeight (utf16 ''225''), ClickStart, Tick None,
        Message (RepCompleted first_rep)] (initial_world empty_db))) = Some 5001
   \<and> autoEndTimer (ui (dispatch ascii_lower ''2025-02-04'' (Message (RepCompleted first_rep))
       \<lparr>ui = tracking_view\<lparr>repDetails := []\<rparr>, store = empty_db, sent = [], ws_open = True,
         clock = 7\<rparr>)) = Some 5007
   \<and> \<not> isTracking (ui (run ascii_lower ''2025-02-04'' (replicate 5 (Tick None)) due_world))
   \<and> length (sets (store (run ascii_lower ''2025-02-04'' (replicate 5 (Tick None))
       due_world))) = 1
   \<and> clock (run ascii_lower ''2025-02-04'' (replicate 5 (Tick None)) due_world) = 5003
   \<and> isTracking (ui (dispatch ascii_lower ''2025-02-04'' (ClickEnd (Some OpAddSet)) due_world))
   \<and> error (ui (dispatch ascii_lower ''2025-02-04'' (ClickEnd (Some OpAddSet)) due_world))
       = Some retry_notice
   \<and> autoEndTimer (ui (dispatch ascii_lower ''2025-02-04'' (ClickEnd (Some OpAddSet))
       due_world)) = None
   \<and> autoEndTimer (ui (dispatch ascii_lower ''2025-02-04'' (ClickRetry (Some OpAddSet))
       (dispatch ascii_lower ''2025-02-04'' (ClickEnd (Some OpAddSet)) due_world))) = None"
proof -
  have ended: "dispatch ascii_lower ''2025-02-04'' (ClickEnd (Some OpAddSet)) due_world =
      due_world\<lparr>ui := tracking_view\<lparr>error := Some retry_notice\<rparr>,
                store := (store (dispatch ascii_lower ''2025-02-04'' (ClickEnd (Some OpAddSet))
                  due_world))\<rparr>"
    by (simp add: due_world_def dispatch_def Let_def autoEndEffect_def endSet_def
        handleEndSet_def logSet_def createWorkout_def getWorkoutByDate_def
        getExercisesForWorkout_def addExercise_def storeSet_def actualReps_def
        tracking_view_def initial_view_def empty_db_def trim_def is_space_def utf16_def)
  have err: "error (ui (dispatch ascii_lower ''2025-02-04'' (ClickEnd (Some OpAddSet))
      due_world)) \<noteq> None"
    by (subst ended) simp
  show ?thesis
    using auto_end_fires_once [of ascii_lower "''2025-02-04''"
        "[TypeExercise (utf16 ''Squat''), TypeWeight (utf16 ''225''), ClickStart, Tick None,
          Message (RepCompleted first_rep)]" empty_db
        "\<lparr>ui = tracking_view\<lparr>repDetails := []\<rparr>, store = empty_db, sent = [],
          ws_open = True, clock = 7\<rparr>" first_rep _ 5000 3 None]
      auto_end_fires_once [of ascii_lower "''2025-02-04''" "[]" empty_db due_world first_rep _
        5000 3 None]
      auto_end_fires_once [of ascii_lower "''2025-02-04''" "[]" empty_db due_world first_rep _
        5000 3 "Some OpAddSet"]
      auto_end_fires_once [of ascii_lower "''2025-02-04''" "[]" empty_db
        "dispatch ascii_lower ''2025-02-04'' (ClickEnd (Some OpAddSet)) due_world" first_rep _
        5000 3 "Some OpAddSet"]
      err
    apply (subst (asm) (1 2 3 4 5 6) ended)
    by (simp add: due_world_def dispatch_def Let_def handleStartSet_def isValid_def
      onmessage_def setRepDetails_append_def autoEndEffect_def AUTO_END_DELAY_def
      initial_world_def tracking_view_def initial_view_def first_rep_def trim_def
      is_space_def utf16_def endSet_def handleEndSet_def logSet_def createWorkout_def
      getWorkoutByDate_def getExercisesForWorkout_def addExercise_def addSet_def
      storeSet_def actualReps_def empty_db_def ascii_lower_def)
qed

text \<open>
  The claim as stated fails for a set without a recorded rep: after the start of a set,
  5000 ms (and as many more as one likes) in the idle phase leave the set tracked and
  nothing stored.
\<close>

theorem auto_end_fires_once_counterexample:
  "isTracking (ui (run ascii_lower ''2025-02-04''
       ([TypeExercise (utf16 ''Squat''), TypeWeight (utf16 ''225''), ClickStart]
          @ replicate 5000 (Tick None))
       (initial_world empty_db)))
   \<and> phase (ui (run ascii_lower ''2025-02-04''
       ([TypeExercise (utf16 ''Squat''), TypeWeight (utf16 ''225''), ClickStart]
          @ replicate 5000 (Tick None))
       (initial_world empty_db))) = ''idle''
   \<and> sets (store (run ascii_lower ''2025-02-04''
       ([TypeExercise (utf16 ''Squat''), TypeWeight (utf16 ''225''), ClickStart]
          @ replicate 5000 (Tick None))
       (initial_world empty_db))) = []
   \<and> clock (run ascii_lower ''2025-02-04''
       ([TypeExercise (utf16 ''Squat''), TypeWeight (utf16 ''225''), ClickStart]
          @ replicate 5000 (Tick None))
       (initial_world empty_db)) = 5000"
proof -
  let ?w = "run ascii_lower ''2025-02-04''
              [TypeExercise (utf16 ''Squat''), TypeWeight (utf16 ''225''), ClickStart]
              (initial_world empty_db)"
  have w: "?w = \<lparr>ui = initial_view\<lparr>exerciseName := utf16 ''Squat'',
                     weight := utf16 ''225'', isTracking := True\<rparr>,
                 store = empty_db, sent = [], ws_open = False, clock = 0\<rparr>"
    by (simp add: dispatch_def Let_def handleStartSet_def isValid_def autoEndEffect_def
        initial_world_def initial_view_def trim_def is_space_def utf16_def)
  have "autoEndTimer (ui ?w) = None"
    unfolding w by (simp add: initial_view_def)
  then have "run ascii_lower ''2025-02-04'' (replicate 5000 (Tick None)) ?w
               = ?w\<lparr>clock := clock ?w + 5000\<rparr>"
    by (rule ticks_idle)
  then show ?thesis
    unfolding run_append w by (simp add: initial_view_def empty_db_def)
qed

section \<open>Properties of the fatigue detector\<close>

lemma record_reps_Cons:
  "fst (record_reps (r # rs) s) = fst (record_reps rs (fst (record_rep r s)))"
  "snd (record_reps (r # rs) s) = snd (record_rep r s) @ snd (record_reps rs (fst (record_rep r s)))"
  by (simp_all split: prod.splits)

lemma record_reps_snoc_parts:
  "fst (record_reps (rs @ [r]) s) = fst (record_rep r (fst (record_reps rs s)))"
  "snd (record_reps (rs @ [r]) s) =
      snd (record_reps rs s) @ snd (record_rep r (fst (record_reps rs s)))"
  by (induction rs arbitrary: s) (simp_all add: record_reps_Cons del: record_reps.simps(2))

lemma record_reps_snoc:
  "record_reps (rs @ [r]) s =
     (fst (record_rep r (fst (record_reps rs s))),
      snd (record_reps rs s) @ snd (record_rep r (fst (record_reps rs s))))"
  by (simp add: prod_eq_iff record_reps_snoc_parts)

lemma record_rep_reps [simp]: "as_reps (fst (record_rep r s)) = as_reps s @ [r]"
  by (simp add: record_rep_def split: prod.splits)

lemma record_rep_fatigue:
  "as_fatigue (fst (record_rep r s)) = fst (fatigue_on_rep (as_reps s @ [r]) (as_fatigue s))"
  "snd (record_rep r s) = snd (fatigue_on_rep (as_reps s @ [r]) (as_fatigue s))"
  by (simp_all add: record_rep_def split: prod.splits)

lemma early_record_reps: "early rs (record_reps rs fresh_set)"
proof (induction rs rule: rev_induct)
  case Nil
  show ?case by (simp add: early_def fresh_set_def fresh_fatigue_def)
next
  case (snoc r rs)
  let ?s = "fst (record_reps rs fresh_set)"
  from snoc have reps: "as_reps ?s = rs"
    and base: "baselineVelocity (as_fatigue ?s) =
          (if length rs < 3 then None else Some (mean (map rr_avgVelocity (take 3 rs))))"
    and quiet: "length rs < 3 \<longrightarrow> \<not> alertActive (as_fatigue ?s) \<and> snd (record_reps rs fresh_set) = []"
    by (simp_all add: early_def)
  show ?case
  proof (cases "length rs < 3")
    case True
    with reps base quiet show ?thesis
      by (simp add: early_def record_reps_snoc record_rep_fatigue fatigue_on_rep_def)
  next
    case False
    with reps base show ?thesis
      by (simp add: early_def record_reps_snoc record_rep_fatigue fatigue_on_rep_def Let_def)
  qed
qed

lemma baseline_kept:
  "baselineVelocity (as_fatigue s) = Some b \<Longrightarrow>
     baselineVelocity (as_fatigue (fst (record_reps rs s))) = Some b"
proof (induction rs arbitrary: s)
  case Nil
  then show ?case by simp
next
  case (Cons r rs)
  have "baselineVelocity (as_fatigue (fst (record_rep r s))) = Some b"
    using Cons.prems by (simp add: record_rep_fatigue fatigue_on_rep_def Let_def)
  from Cons.IH [OF this] show ?case by (simp add: record_reps_Cons del: record_reps.simps(2))
qed

lemma record_reps_append:
  "fst (record_reps (rs @ later) s) = fst (record_reps later (fst (record_reps rs s)))"
  by (induction rs arbitrary: s) (simp_all add: record_reps_Cons del: record_reps.simps(2))

text \<open>
  Claim C2.  For every sequence of rep records appended to a set from its start: the
  rep list is that sequence; the baseline is absent while fewer than 3 reps exist and is
  the arithmetic mean of the first 3 average velocities from the third rep on; while
  fewer than 3 reps exist there is no alert and no warning was emitted; and once 3 reps
  exist, whatever reps follow, the baseline stays what it was (it is set once, by the
  third rep, and not recomputed).
\<close>

theorem baseline_set_once:
  "as_reps (fst (record_reps rs fresh_set)) = rs
   \<and> baselineVelocity (as_fatigue (fst (record_reps rs fresh_set))) =
       (if length rs < 3 then None else Some (mean (map rr_avgVelocity (take 3 rs))))
   \<and> (length rs < 3 \<longrightarrow>
        \<not> alertActive (as_fatigue (fst (record_reps rs fresh_set)))
        \<and> snd (record_reps rs fresh_set) = [])
   \<and> (3 \<le> length rs \<longrightarrow>
        baselineVelocity (as_fatigue (fst (record_reps (rs @ later) fresh_set))) =
        baselineVelocity (as_fatigue (fst (record_reps rs fresh_set))))"
proof -
  have e: "early rs (record_reps rs fresh_set)" by (rule early_record_reps)
  have "3 \<le> length rs \<longrightarrow>
        baselineVelocity (as_fatigue (fst (record_reps (rs @ later) fresh_set))) =
        baselineVelocity (as_fatigue (fst (record_reps rs fresh_set)))"
  proof
    assume "3 \<le> length rs"
    with e have "baselineVelocity (as_fatigue (fst (record_reps rs fresh_set))) =
        Some (mean (map rr_avgVelocity (take 3 rs)))"
      by (simp add: early_def)
    then show "baselineVelocity (as_fatigue (fst (record_reps (rs @ later) fresh_set))) =
        baselineVelocity (as_fatigue (fst (record_reps rs fresh_set)))"
      by (simp add: record_reps_append baseline_kept)
  qed
  with e show ?thesis by (simp add: early_def)
qed

theorem baseline_set_once_witness:
  "baselineVelocity (as_fatigue (fst (record_reps three_reps fresh_set))) = Some (95/100)
   \<and> baselineVelocity (as_fatigue (fst (record_reps (three_reps @ [fourth_rep]) fresh_set)))
       = Some (95/100)
   \<and> baselineVelocity (as_fatigue (fst (record_reps (take 2 three_reps) fresh_set))) = None
   \<and> \<not> alertActive (as_fatigue (fst (record_reps (take 2 three_reps) fresh_set)))
   \<and> snd (record_reps (take 2 three_reps) fresh_set) = []"
  using baseline_set_once [of three_reps "[fourth_rep]"]
    baseline_set_once [of "take 2 three_reps" "[]"]
  by (simp add: three_reps_def rep_of_def mean_def)

text \<open>
  Claim C3.  For every rep after the third of a set whose baseline is positive: the drop
  percentage recorded is \<open>(baseline - smoothed) / baseline * 100\<close> clamped to at least 0,
  where the baseline is the mean of the first 3 average velocities and \<open>smoothed\<close> the
  mean of the last 3 including the new rep; the alert is active exactly when the drop is
  at least 11; and the warnings emitted for that rep are exactly one, carrying the drop,
  the smoothed velocity and the baseline, when the drop is at least 11 and the alert was
  not active before, and none otherwise.
\<close>

theorem fatigue_drop_and_warning:
  assumes "3 \<le> length rs" "0 < mean (map rr_avgVelocity (take 3 rs))"
  shows "lastDropPercentage (as_fatigue (fst (record_reps (rs @ [r]) fresh_set))) =
           max 0 ((mean (map rr_avgVelocity (take 3 rs)) - mean (map rr_avgVelocity (lastn 3 (rs @ [r]))))
                    / mean (map rr_avgVelocity (take 3 rs)) * 100)
       \<and> alertActive (as_fatigue (fst (record_reps (rs @ [r]) fresh_set))) =
           (11 \<le> max 0 ((mean (map rr_avgVelocity (take 3 rs)) - mean (map rr_avgVelocity (lastn 3 (rs @ [r]))))
                    / mean (map rr_avgVelocity (take 3 rs)) * 100))
       \<and> snd (record_rep r (fst (record_reps rs fresh_set))) =
           (if 11 \<le> max 0 ((mean (map rr_avgVelocity (take 3 rs)) - mean (map rr_avgVelocity (lastn 3 (rs @ [r]))))
                    / mean (map rr_avgVelocity (take 3 rs)) * 100)
               \<and> \<not> alertActive (as_fatigue (fst (record_reps rs fresh_set)))
            then [\<lparr>fw_dropPercentage =
                     max 0 ((mean (map rr_avgVelocity (take 3 rs)) - mean (map rr_avgVelocity (lastn 3 (rs @ [r]))))
                       / mean (map rr_avgVelocity (take 3 rs)) * 100),
                   fw_currentVelocity = mean (map rr_avgVelocity (lastn 3 (rs @ [r]))),
                   fw_baselineVelocity = mean (map rr_avgVelocity (take 3 rs))\<rparr>]
            else [])"
proof -
  have e: "early rs (record_reps rs fresh_set)" by (rule early_record_reps)
  with assms(1) have "as_reps (fst (record_reps rs fresh_set)) = rs"
    "baselineVelocity (as_fatigue (fst (record_reps rs fresh_set))) = Some (mean (map rr_avgVelocity (take 3 rs)))"
    by (simp_all add: early_def)
  then show ?thesis
    by (simp add: record_reps_snoc record_rep_fatigue fatigue_on_rep_def Let_def)
qed

theorem fatigue_drop_and_warning_witness:
  "3 \<le> length three_reps \<and> 0 < mean (map rr_avgVelocity (take 3 three_reps))
   \<and> mean (map rr_avgVelocity (lastn 3 (three_reps @ [fourth_rep]))) = 80/100
   \<and> lastDropPercentage (as_fatigue (fst (record_reps (three_reps @ [fourth_rep]) fresh_set)))
       = 300/19
   \<and> alertActive (as_fatigue (fst (record_reps (three_reps @ [fourth_rep]) fresh_set)))
   \<and> snd (record_rep fourth_rep (fst (record_reps three_reps fresh_set))) =
       [\<lparr>fw_dropPercentage = 300/19, fw_currentVelocity = 80/100,
         fw_baselineVelocity = 95/100\<rparr>]"
  using fatigue_drop_and_warning [of three_reps fourth_rep]
  by (simp add: three_reps_def fourth_rep_def rep_of_def mean_def lastn_def record_rep_def
      fatigue_on_rep_def fresh_set_def fresh_fatigue_def)

section \<open>Properties of the rep tracker\<close>

lemma enter_phase [simp]: "tr_phase (fst (enter c q t tr)) = q"
  by (simp add: enter_def Let_def)

lemma enter_enteredAt [simp]: "tr_enteredAt (fst (enter c q t tr)) = t"
  by (simp add: enter_def Let_def)

lemma enter_events:
  "tr_events (fst (enter c q t tr)) =
     (if q \<noteq> Idle
      then (if tr_phase tr = Idle then tr_events tr
            else tr_events tr @ [\<lparr>pe_phase = tr_phase tr, pe_enteredAt = tr_enteredAt tr, pe_exitedAt = t\<rparr>])
      else [])"
  by (simp add: enter_def Let_def)

lemma enter_rep:
  "map_option rr_repNumber (snd (enter c q t tr)) =
     (if q = Idle \<and> complete_cycle c
            (if tr_phase tr = Idle then tr_events tr
             else tr_events tr @ [\<lparr>pe_phase = tr_phase tr, pe_enteredAt = tr_enteredAt tr, pe_exitedAt = t\<rparr>])
      then Some (tr_repCount tr + 1) else None)"
  by (simp add: enter_def Let_def)

lemma enter_repCount:
  "tr_repCount (fst (enter c q t tr)) =
     (if q = Idle \<and> complete_cycle c
            (if tr_phase tr = Idle then tr_events tr
             else tr_events tr @ [\<lparr>pe_phase = tr_phase tr, pe_enteredAt = tr_enteredAt tr, pe_exitedAt = t\<rparr>])
      then tr_repCount tr + 1 else tr_repCount tr)"
  by (simp add: enter_def Let_def)

text \<open>What one sample does to the phase, the cycle and the rep count.\<close>

lemma track_cases:
  "(tr_phase (fst (track c s tr)) = tr_phase tr \<and> snd (track c s tr) = None
      \<and> tr_enteredAt (fst (track c s tr)) = tr_enteredAt tr
      \<and> tr_events (fst (track c s tr)) = tr_events tr
      \<and> tr_repCount (fst (track c s tr)) = tr_repCount tr)
   \<or> (tr_phase (fst (track c s tr)) \<noteq> tr_phase tr
      \<and> tr_enteredAt (fst (track c s tr)) = sm_timestamp s
      \<and> tr_events (fst (track c s tr)) =
          tr_events (fst (enter c (tr_phase (fst (track c s tr))) (sm_timestamp s) tr))
      \<and> tr_repCount (fst (track c s tr)) =
          tr_repCount (fst (enter c (tr_phase (fst (track c s tr))) (sm_timestamp s) tr))
      \<and> map_option rr_repNumber (snd (track c s tr)) =
          map_option rr_repNumber (snd (enter c (tr_phase (fst (track c s tr))) (sm_timestamp s) tr)))"
  by (auto simp: track_def Let_def enter_def split: option.splits prod.splits)


lemma reps_replay:
  "map rr_repNumber (reps_emitted c xs tr) =
     replay c (phase_trace c xs tr) (tr_phase tr) (tr_enteredAt tr) (tr_events tr) (tr_repCount tr)"
proof (induction xs arbitrary: tr)
  case Nil
  show ?case by simp
next
  case (Cons x xs)
  let ?tr = "fst (track c x tr)"
  note IH = Cons.IH [of ?tr]
  from track_cases [of c x tr] show ?case
  proof (elim disjE conjE)
    assume "tr_phase ?tr = tr_phase tr" "snd (track c x tr) = None"
      "tr_enteredAt ?tr = tr_enteredAt tr" "tr_events ?tr = tr_events tr"
      "tr_repCount ?tr = tr_repCount tr"
    with IH show ?thesis by simp
  next
    assume ch: "tr_phase ?tr \<noteq> tr_phase tr"
      and at: "tr_enteredAt ?tr = sm_timestamp x"
      and ev: "tr_events ?tr = tr_events (fst (enter c (tr_phase ?tr) (sm_timestamp x) tr))"
      and rc: "tr_repCount ?tr = tr_repCount (fst (enter c (tr_phase ?tr) (sm_timestamp x) tr))"
      and rp: "map_option rr_repNumber (snd (track c x tr)) =
          map_option rr_repNumber (snd (enter c (tr_phase ?tr) (sm_timestamp x) tr))"
    show ?thesis
    proof (cases "tr_phase ?tr = Idle")
      case False
      with rp have "snd (track c x tr) = None" by (simp add: enter_rep)
      with False ch at ev rc IH show ?thesis
        by (simp add: enter_events enter_repCount)
    next
      case True
      show ?thesis
      proof (cases "complete_cycle c
            (if tr_phase tr = Idle then tr_events tr
             else tr_events tr @ [\<lparr>pe_phase = tr_phase tr, pe_enteredAt = tr_enteredAt tr,
                                    pe_exitedAt = sm_timestamp x\<rparr>])")
        case c: True
        with True rp obtain r where "snd (track c x tr) = Some r" "rr_repNumber r = tr_repCount tr + 1"
          by (auto simp: enter_rep)
        with True c ch at ev rc IH show ?thesis
          by (simp add: enter_events enter_repCount)
      next
        case c: False
        with True rp have "snd (track c x tr) = None" by (simp add: enter_rep)
        with True c ch at ev rc IH show ?thesis
          by (simp add: enter_events enter_repCount)
      qed
    qed
  qed
qed

text \<open>
  Claim C1.  For every sample sequence fed to a tracker that is idle with no cycle in
  progress: when the phases the tracker goes through over the sequence are Descending
  and Ascending in either order and then Idle, each of the two non-idle phases lasting
  at least \<open>minPhaseDuration\<close>, exactly one rep record is emitted, numbered one more than
  the rep count before.  The two sequences of the specification, sampled at 50 Hz with
  0.2 s per motion, are instances (see the theorem that follows).
\<close>

theorem one_rep_either_order:
  assumes idle: "tr_phase tr = Idle" "tr_events tr = []"
      and trace: "phase_trace c xs tr = [(q1, t1), (q2, t2), (Idle, t3)]"
      and order: "(q1 = Descending \<and> q2 = Ascending) \<or> (q1 = Ascending \<and> q2 = Descending)"
      and long: "minPhaseDuration c \<le> t2 - t1" "minPhaseDuration c \<le> t3 - t2"
  shows "\<exists>r. reps_emitted c xs tr = [r] \<and> rr_repNumber r = tr_repCount tr + 1"
proof -
  have "map rr_repNumber (reps_emitted c xs tr) = [tr_repCount tr + 1]"
    using order long
    by (auto simp: reps_replay trace idle complete_cycle_def lasted_def)
  then show ?thesis by (cases "reps_emitted c xs tr") auto
qed

theorem one_rep_either_order_witness:
  "phase_trace default_config down_up fresh_tracker =
     [(Descending, 11/50), (Ascending, 11/25), (Idle, 33/50)]
   \<and> length (reps_emitted default_config down_up fresh_tracker) = 1
   \<and> phase_trace default_config up_down fresh_tracker =
     [(Ascending, 11/50), (Descending, 11/25), (Idle, 33/50)]
   \<and> length (reps_emitted default_config up_down fresh_tracker) = 1"
proof -
  have du: "phase_trace default_config down_up fresh_tracker =
     [(Descending, 11/50), (Ascending, 11/25), (Idle, 33/50)]"
    by code_simp
  have ud: "phase_trace default_config up_down fresh_tracker =
     [(Ascending, 11/50), (Descending, 11/25), (Idle, 33/50)]"
    by code_simp
  have idle: "tr_phase fresh_tracker = Idle" "tr_events fresh_tracker = []"
    by (simp_all add: fresh_tracker_def)
  have long: "minPhaseDuration default_config \<le> 11/25 - 11/50"
    "minPhaseDuration default_config \<le> 33/50 - 11/25"
    by (simp_all add: default_config_def)
  have "\<exists>r. reps_emitted default_config down_up fresh_tracker = [r]
          \<and> rr_repNumber r = tr_repCount fresh_tracker + 1"
    using one_rep_either_order [OF idle du _ long] by simp
  moreover have "\<exists>r. reps_emitted default_config up_down fresh_tracker = [r]
          \<and> rr_repNumber r = tr_repCount fresh_tracker + 1"
    using one_rep_either_order [OF idle ud _ long] by simp
  ultimately show ?thesis using du ud by auto
qed

end
